theory Spec2Isabelle
  imports Complex_Main "HOL-Library.AList"
begin

section \<open>The worker pool scheduler (ThreadPoolManager.ts)\<close>

text \<open>
  The coordinator is single threaded: every method body and every event handler of
  \<^verbatim>\<open>ThreadPoolManager\<close> runs to its next \<^verbatim>\<open>await\<close> without interleaving. The
  embedding is therefore a state record and one function per method or handler. What the
  environment decides (does a \<^verbatim>\<open>Worker\<close> constructor throw, does \<^verbatim>\<open>postMessage\<close>
  throw, which message arrives, which timer fires) is an argument of the function.

  Task ids are JavaScript numbers counted up from 0; they are modelled as \<open>nat\<close> (the
  counter stays exact up to \<open>2 ^ 53\<close> submissions). A timeout timer is identified with
  the id of the task it was created for, since the timer's closure holds exactly that id.
\<close>

subsection \<open>Data\<close>

text \<open>What a worker reports as \<^verbatim>\<open>message.error\<close>: a string, or the object that
  \<^verbatim>\<open>serializeError\<close> builds (name and message).\<close>

datatype worker_error = ErrText string | ErrObject string string

text \<open>The errors a promise of the pool is rejected with. The source has one
  \<^verbatim>\<open>Error\<close> class and tells the kinds apart by message:
  \<open>NotRunning\<close> is 'Thread pool is not running', \<open>QueueFull\<close> is 'Task queue is full',
  \<open>NoWorkers\<close> is 'No workers available', \<open>PostMessageFailed\<close> is whatever
  \<^verbatim>\<open>postMessage\<close> threw, \<open>TimedOut i ms\<close> is 'Task i timed out after ms ms',
  \<open>ShuttingDown\<close> is 'Thread pool is shutting down', \<open>FromWorker\<close> carries the error a
  worker reported, \<open>LengthMismatch\<close> is 'Start and end points arrays must have the same
  length'.\<close>

datatype pool_error =
    NotRunning
  | QueueFull
  | NoWorkers
  | PostMessageFailed
  | TimedOut nat int
  | ShuttingDown
  | FromWorker worker_error
  | LengthMismatch

datatype 'v outcome = Resolved 'v | Rejected pool_error

text \<open>One call of a stored \<^verbatim>\<open>resolve\<close> or \<^verbatim>\<open>reject\<close> callback: the task it belongs
  to, what it was called with, and two observations made at the moment of the call:
  whether the task still had its entry in \<^verbatim>\<open>taskQueue\<close>, and whether its timeout
  timer was still live.\<close>

record 'v settlement =
  task_id :: nat
  settled_with :: "'v outcome"
  still_registered :: bool
  timer_live :: bool

datatype msg_kind = ResultKind | StatusKind | ErrorKind | TaskKind

text \<open>A message received from a worker. \<open>msg_id = None\<close> stands for an \<^verbatim>\<open>id\<close> that is
  not of type number. \<open>msg_result\<close> is read only when \<open>msg_error\<close> is not truthy; a result
  that may be \<^verbatim>\<open>undefined\<close> is had by taking an option type for \<open>'v\<close>.\<close>

record 'v ResultMessage =
  msg_id :: "int option"
  msg_type :: msg_kind
  msg_result :: "'v"
  msg_error :: "worker_error option"

datatype warning = InvalidMessage | UnknownTaskId int | NativeBatchFailed

record ThreadPoolOptions =
  jsThreads :: "int option"
  maxQueueSizeOpt :: "int option"
  taskTimeoutOpt :: "int option"

text \<open>The fields of the class, followed by what the model has to observe of the
  environment: the live timeout timers, the calls of promise callbacks, the messages
  posted to workers, the workers asked to terminate and those whose exit was seen, the
  number of \<^verbatim>\<open>Worker\<close> objects constructed so far (the next fresh handle), the
  console warnings and the emitted events.\<close>

record ('a, 'v) pool =
  workers :: "nat list"
  jsThreadCount :: int
  taskQueue :: "(nat \<times> nat option) list"
  nextTaskId :: nat
  running :: bool
  fallbackMode :: bool
  maxQueueSize :: int
  taskTimeout :: int
  timers :: "nat set"
  settled :: "'v settlement list"
  posted :: "(nat \<times> nat \<times> 'a) list"
  terminating :: "nat list"
  exited :: "nat list"
  spawned :: nat
  warnings :: "warning list"
  emitted :: "string list"

subsection \<open>Construction\<close>

text \<open>\<^verbatim>\<open>determineThreadCount\<close>. \<open>availableThreads\<close> is \<^verbatim>\<open>os.cpus().length\<close> (or 4 when
  that call throws); \<open>None\<close> is an absent request. \<^verbatim>\<open>!requestedThreads\<close> holds for
  \<^verbatim>\<open>undefined\<close> and for 0.\<close>

definition determineThreadCount :: "nat \<Rightarrow> int option \<Rightarrow> int" where
  "determineThreadCount availableThreads requestedThreads =
     (case requestedThreads of
        None \<Rightarrow> max 1 (int availableThreads div 2)
      | Some r \<Rightarrow>
          if r = 0 \<or> r \<le> 0 then max 1 (int availableThreads div 2)
          else min r (int availableThreads))"

text \<open>\<^verbatim>\<open>options.x || d\<close>: the default replaces an absent value and 0.\<close>

definition or_default :: "int option \<Rightarrow> int \<Rightarrow> int" where
  "or_default v d = (case v of None \<Rightarrow> d | Some n \<Rightarrow> if n = 0 then d else n)"

text \<open>\<^verbatim>\<open>terminateWorkers\<close> up to its \<^verbatim>\<open>await\<close> (every worker is asked to terminate and
  the array is emptied), the exits it then waits for, and the whole method.\<close>

definition terminateWorkers_begin :: "('a, 'v) pool \<Rightarrow> ('a, 'v) pool" where
  "terminateWorkers_begin s = s\<lparr>terminating := terminating s @ workers s, workers := []\<rparr>"

definition terminateWorkers_await :: "('a, 'v) pool \<Rightarrow> ('a, 'v) pool" where
  "terminateWorkers_await s = s\<lparr>exited := exited s @ terminating s, terminating := []\<rparr>"

definition terminateWorkers :: "('a, 'v) pool \<Rightarrow> ('a, 'v) pool" where
  "terminateWorkers s = terminateWorkers_await (terminateWorkers_begin s)"

text \<open>\<^verbatim>\<open>createWorker(id)\<close>: when the \<^verbatim>\<open>Worker\<close> constructor throws, the promise is
  rejected and nothing is pushed; otherwise the new worker is pushed.\<close>

definition createWorker :: "bool \<Rightarrow> nat \<Rightarrow> ('a, 'v) pool \<Rightarrow> ('a, 'v) pool" where
  "createWorker constructed slot s =
     (if constructed then s\<lparr>workers := workers s @ [spawned s], spawned := spawned s + 1\<rparr>
      else s)"

text \<open>\<^verbatim>\<open>start\<close> up to its first suspension (inside \<^verbatim>\<open>terminateWorkers\<close>), and the rest of
  it: the exits, the creation loop of \<^verbatim>\<open>initializeWorkers\<close> and the 'started' event.
  \<open>canSpawn i\<close> says whether the \<^verbatim>\<open>Worker\<close> constructor succeeds for slot \<open>i\<close>.\<close>

definition start_begin :: "('a, 'v) pool \<Rightarrow> ('a, 'v) pool" where
  "start_begin s = (if running s then s else terminateWorkers_begin (s\<lparr>running := True\<rparr>))"

text \<open>The part of \<^verbatim>\<open>initializeWorkers\<close> after its \<^verbatim>\<open>await this.terminateWorkers()\<close>: the
  creation loop. It does not look at the running flag.\<close>

definition initializeWorkers_resume :: "(nat \<Rightarrow> bool) \<Rightarrow> ('a, 'v) pool \<Rightarrow> ('a, 'v) pool" where
  "initializeWorkers_resume canSpawn s =
     (let s1 = terminateWorkers_await s
      in fold (\<lambda>i. createWorker (canSpawn i) i) [0..<nat (jsThreadCount s1)] s1)"

text \<open>The end of \<^verbatim>\<open>start\<close>: \<^verbatim>\<open>this.emit('started')\<close>.\<close>

definition start_finish :: "('a, 'v) pool \<Rightarrow> ('a, 'v) pool" where
  "start_finish s = s\<lparr>emitted := emitted s @ [''started'']\<rparr>"

definition start_resume :: "(nat \<Rightarrow> bool) \<Rightarrow> ('a, 'v) pool \<Rightarrow> ('a, 'v) pool" where
  "start_resume canSpawn s = start_finish (initializeWorkers_resume canSpawn s)"

definition start :: "(nat \<Rightarrow> bool) \<Rightarrow> ('a, 'v) pool \<Rightarrow> ('a, 'v) pool" where
  "start canSpawn s = (if running s then s else start_resume canSpawn (start_begin s))"

text \<open>The constructor: the field initialisers, the options, the attempt to load the
  native module (\<open>cppLoads\<close>), and the call of \<^verbatim>\<open>start()\<close>, which is not awaited: the
  constructor returns when \<^verbatim>\<open>start\<close> suspends.\<close>

definition constructor :: "nat \<Rightarrow> bool \<Rightarrow> ThreadPoolOptions \<Rightarrow> ('a, 'v) pool" where
  "constructor availableThreads cppLoads options =
     start_begin
       \<lparr>workers = [],
        jsThreadCount = determineThreadCount availableThreads (jsThreads options),
        taskQueue = [],
        nextTaskId = 0,
        running = False,
        fallbackMode = (\<not> cppLoads),
        maxQueueSize = or_default (maxQueueSizeOpt options) 10000,
        taskTimeout = or_default (taskTimeoutOpt options) 30000,
        timers = {},
        settled = [],
        posted = [],
        terminating = [],
        exited = [],
        spawned = 0,
        warnings = [],
        emitted = []\<rparr>"

subsection \<open>Submitting, results, timeouts, shutdown\<close>

text \<open>A call of the \<^verbatim>\<open>resolve\<close> or \<^verbatim>\<open>reject\<close> callback of task \<open>i\<close>.\<close>

definition invoke :: "nat \<Rightarrow> 'v outcome \<Rightarrow> ('a, 'v) pool \<Rightarrow> ('a, 'v) pool" where
  "invoke i out s =
     s\<lparr>settled := settled s @
          [\<lparr>task_id = i, settled_with = out,
            still_registered = (i \<in> fst ` set (taskQueue s)),
            timer_live = (i \<in> timers s)\<rparr>]\<rparr>"

definition clearTimeout :: "nat \<Rightarrow> ('a, 'v) pool \<Rightarrow> ('a, 'v) pool" where
  "clearTimeout t s = s\<lparr>timers := timers s - {t}\<rparr>"

text \<open>\<^verbatim>\<open>if (taskPromise.timeoutId) clearTimeout(taskPromise.timeoutId)\<close>.\<close>

definition clearTimeoutOf :: "nat option \<Rightarrow> ('a, 'v) pool \<Rightarrow> ('a, 'v) pool" where
  "clearTimeoutOf t s = (case t of None \<Rightarrow> s | Some h \<Rightarrow> clearTimeout h s)"

definition queue_delete :: "nat \<Rightarrow> ('a, 'v) pool \<Rightarrow> ('a, 'v) pool" where
  "queue_delete i s = s\<lparr>taskQueue := AList.delete i (taskQueue s)\<rparr>"

text \<open>\<^verbatim>\<open>scheduleTask\<close>. The result is \<open>Inl e\<close> when the promise is rejected with \<open>e\<close> before
  the method returns and \<open>Inr i\<close> when it is left pending under task id \<open>i\<close>.
  \<open>postOk\<close> says whether \<^verbatim>\<open>worker.postMessage\<close> returns normally; \<open>payload\<close> stands
  for the serialized function and its arguments.\<close>

definition scheduleTask ::
  "bool \<Rightarrow> 'a \<Rightarrow> ('a, 'v) pool \<Rightarrow> (pool_error + nat) \<times> ('a, 'v) pool" where
  "scheduleTask postOk payload s =
     (if \<not> running s then (Inl NotRunning, s)
      else if maxQueueSize s \<le> int (length (taskQueue s)) then (Inl QueueFull, s)
      else
        let taskId = nextTaskId s;
            s1 = s\<lparr>nextTaskId := taskId + 1\<rparr>;
            s2 = s1\<lparr>timers := insert taskId (timers s1)\<rparr>;
            s3 = s2\<lparr>taskQueue := AList.update taskId (Some taskId) (taskQueue s2)\<rparr>
        in if length (workers s3) = 0 then
             (Inl NoWorkers,
              invoke taskId (Rejected NoWorkers) (queue_delete taskId (clearTimeout taskId s3)))
           else
             let worker = workers s3 ! (taskId mod length (workers s3))
             in if postOk then
                  (Inr taskId, s3\<lparr>posted := posted s3 @ [(worker, taskId, payload)]\<rparr>)
                else
                  (Inl PostMessageFailed,
                   invoke taskId (Rejected PostMessageFailed)
                     (queue_delete taskId (clearTimeout taskId s3))))"

text \<open>\<^verbatim>\<open>message.error\<close> is tested for truthiness: the empty string counts as no
  error.\<close>

definition truthy_error :: "worker_error option \<Rightarrow> worker_error option" where
  "truthy_error e = (case e of Some (ErrText []) \<Rightarrow> None | _ \<Rightarrow> e)"

definition warn :: "warning \<Rightarrow> ('a, 'v) pool \<Rightarrow> ('a, 'v) pool" where
  "warn w s = s\<lparr>warnings := warnings s @ [w]\<rparr>"

text \<open>The lookup \<^verbatim>\<open>taskQueue.get(message.id)\<close> for a numeric id: only ids that were
  handed out (natural numbers) can be keys.\<close>

definition queue_get :: "int \<Rightarrow> ('a, 'v) pool \<Rightarrow> nat option option" where
  "queue_get i s = (if i < 0 then None else map_of (taskQueue s) (nat i))"

definition handleWorkerMessage :: "'v ResultMessage \<Rightarrow> ('a, 'v) pool \<Rightarrow> ('a, 'v) pool" where
  "handleWorkerMessage message s =
     (case msg_id message of
        None \<Rightarrow> warn InvalidMessage s
      | Some i \<Rightarrow>
          if msg_type message \<noteq> ResultKind then warn InvalidMessage s
          else
            (case queue_get i s of
               None \<Rightarrow> warn (UnknownTaskId i) s
             | Some timeoutId \<Rightarrow>
                 let s1 = clearTimeoutOf timeoutId s;
                     s2 = queue_delete (nat i) s1
                 in (case truthy_error (msg_error message) of
                       Some e \<Rightarrow> invoke (nat i) (Rejected (FromWorker e)) s2
                     | None \<Rightarrow> invoke (nat i) (Resolved (msg_result message)) s2)))"

text \<open>The callback given to \<^verbatim>\<open>setTimeout\<close> in \<^verbatim>\<open>scheduleTask\<close>, run by the timer of task
  \<open>taskId\<close>. A timer that was cleared, or that has fired, does not fire.\<close>

definition timeoutFires :: "nat \<Rightarrow> ('a, 'v) pool \<Rightarrow> ('a, 'v) pool" where
  "timeoutFires taskId s =
     (if taskId \<notin> timers s then s
      else
        let s1 = s\<lparr>timers := timers s - {taskId}\<rparr>
        in (case map_of (taskQueue s1) taskId of
              None \<Rightarrow> s1
            | Some _ \<Rightarrow>
                invoke taskId (Rejected (TimedOut taskId (taskTimeout s1)))
                  (queue_delete taskId s1)))"

text \<open>The loop of \<^verbatim>\<open>shutdown\<close> over \<^verbatim>\<open>taskQueue.entries()\<close>, in insertion order; the
  map itself is not changed by the loop.\<close>

definition rejectPending :: "('a, 'v) pool \<Rightarrow> ('a, 'v) pool" where
  "rejectPending s =
     fold (\<lambda>(taskId, timeoutId) s'. invoke taskId (Rejected ShuttingDown)
             (clearTimeoutOf timeoutId s'))
       (taskQueue s) s"

text \<open>\<^verbatim>\<open>shutdown\<close> on a running pool suspends at \<^verbatim>\<open>await this.terminateWorkers()\<close>.
  \<open>shutdown_begin\<close> is the method up to that suspension (on a pool that is not running,
  the whole method); \<open>shutdown_resume\<close> is the rest of it, run when the workers asked to
  terminate have exited. Other events of the pool can take place in between.
  \<open>shutdown\<close> is the call during whose suspension nothing else happens.\<close>

definition shutdown_begin :: "('a, 'v) pool \<Rightarrow> ('a, 'v) pool" where
  "shutdown_begin s =
     (if \<not> running s then s
      else
        let s1 = s\<lparr>running := False\<rparr>;
            s2 = rejectPending s1;
            s3 = s2\<lparr>taskQueue := []\<rparr>
        in terminateWorkers_begin s3)"

definition shutdown_resume :: "('a, 'v) pool \<Rightarrow> ('a, 'v) pool" where
  "shutdown_resume s =
     (let s4 = terminateWorkers_await s
      in s4\<lparr>emitted := emitted s4 @ [''shutdown'']\<rparr>)"

definition shutdown :: "('a, 'v) pool \<Rightarrow> ('a, 'v) pool" where
  "shutdown s = (if \<not> running s then s else shutdown_resume (shutdown_begin s))"

text \<open>The 'exit' handler installed by \<^verbatim>\<open>createWorker\<close>, for the worker with handle
  \<open>w\<close>.\<close>

definition workerExit :: "nat \<Rightarrow> ('a, 'v) pool \<Rightarrow> ('a, 'v) pool" where
  "workerExit w s =
     s\<lparr>workers := filter (\<lambda>w'. w' \<noteq> w) (workers s),
       terminating := filter (\<lambda>w'. w' \<noteq> w) (terminating s),
       exited := exited s @ [w]\<rparr>"

text \<open>What can happen to a pool, and the state after a sequence of such events. The
  last constructor is the delayed \<^verbatim>\<open>createWorker(id)\<close> that the 'exit' and 'error'
  handlers schedule.\<close>

datatype ('a, 'v) action =
    Submit bool 'a
  | Message "'v ResultMessage"
  | TimerFires nat
  | Shutdown
  | ShutdownBegin
  | ShutdownResume
  | StartBegin
  | StartResume "nat \<Rightarrow> bool"
  | WorkerExit nat
  | Respawn bool nat

fun step :: "('a, 'v) action \<Rightarrow> ('a, 'v) pool \<Rightarrow> ('a, 'v) pool" where
  "step (Submit postOk payload) s = snd (scheduleTask postOk payload s)"
| "step (Message m) s = handleWorkerMessage m s"
| "step (TimerFires i) s = timeoutFires i s"
| "step Shutdown s = shutdown s"
| "step ShutdownBegin s = shutdown_begin s"
| "step ShutdownResume s = shutdown_resume s"
| "step StartBegin s = start_begin s"
| "step (StartResume canSpawn) s = start_resume canSpawn s"
| "step (WorkerExit w) s = workerExit w s"
| "step (Respawn constructed slot) s = createWorker constructed slot s"

definition run :: "('a, 'v) action list \<Rightarrow> ('a, 'v) pool \<Rightarrow> ('a, 'v) pool" where
  "run acts s = fold step acts s"

section \<open>The batch operations of the pool\<close>

subsection \<open>Points, options and the per-item operation\<close>

record Point =
  coord_x :: real
  coord_y :: real

record BezierOptions =
  numPoints :: nat
  complexity :: real
  overshootFactor :: real
  jitterAmount :: real
  seed :: "nat option"

text \<open>\<^verbatim>\<open>generateBezierPath\<close>. The method resolves the seed
  (\<^verbatim>\<open>options.seed ?? Math.floor(Math.random() * 1000000)\<close>; \<open>draw\<close> is the value drawn)
  and then computes the control points and the curve in double precision from the seed,
  the two points and the options alone. That floating-point computation is the argument
  \<open>curve\<close>: every statement below holds for whatever function it is.\<close>

definition generateBezierPath ::
  "(nat \<Rightarrow> Point \<Rightarrow> Point \<Rightarrow> BezierOptions \<Rightarrow> Point list) \<Rightarrow>
   nat \<Rightarrow> Point \<Rightarrow> Point \<Rightarrow> BezierOptions \<Rightarrow> Point list" where
  "generateBezierPath curve draw startPoint endPoint options =
     curve (case seed options of Some sd \<Rightarrow> sd | None \<Rightarrow> draw) startPoint endPoint options"

record Batch =
  startPoints :: "Point list"
  endPoints :: "Point list"
  batchOptions :: BezierOptions

text \<open>\<^verbatim>\<open>processBatch\<close>, the task sent to the workers: the loop over
  \<^verbatim>\<open>batch.startPoints\<close>, reading \<^verbatim>\<open>batch.endPoints[i]\<close>. \<open>draws i\<close> is the random
  draw made for item \<open>i\<close> of the batch.\<close>

definition processBatch ::
  "(nat \<Rightarrow> Point \<Rightarrow> Point \<Rightarrow> BezierOptions \<Rightarrow> Point list) \<Rightarrow>
   (nat \<Rightarrow> nat) \<Rightarrow> Batch \<Rightarrow> Point list list" where
  "processBatch curve draws batch =
     map (\<lambda>i. generateBezierPath curve (draws i)
                (startPoints batch ! i) (endPoints batch ! i) (batchOptions batch))
       [0..<length (startPoints batch)]"

subsection \<open>Chunking\<close>

text \<open>\<^verbatim>\<open>xs.slice(i, j)\<close> for \<open>0 \<le> i \<le> j\<close>; the end is clamped to the length.\<close>

definition slice :: "'x list \<Rightarrow> nat \<Rightarrow> nat \<Rightarrow> 'x list" where
  "slice xs i j = take (j - i) (drop i xs)"

text \<open>\<^verbatim>\<open>Math.max(1, Math.ceil(startPoints.length / this.workers.length))\<close>. With no
  worker the quotient of a positive length by 0 is \<^verbatim>\<open>Infinity\<close>: the first slice then
  takes every item and the loop ends, which is what a batch size of \<open>n\<close> does.\<close>

definition batchSizeFor :: "nat \<Rightarrow> nat \<Rightarrow> nat" where
  "batchSizeFor n w = (if w = 0 then max 1 n else max 1 (nat \<lceil>real n / real w\<rceil>))"

text \<open>The loop \<^verbatim>\<open>for (let i = 0; i < startPoints.length; i += batchSize)\<close>, from index
  \<open>i\<close> on. The batch size is at least 1 at every call; the test \<open>0 < batchSize\<close> only makes
  the function total.\<close>

function makeBatches ::
  "Point list \<Rightarrow> Point list \<Rightarrow> BezierOptions \<Rightarrow> nat \<Rightarrow> nat \<Rightarrow> Batch list" where
  "makeBatches starts ends options batchSize i =
     (if i < length starts \<and> 0 < batchSize then
        \<lparr>startPoints = slice starts i (i + batchSize),
         endPoints = slice ends i (i + batchSize),
         batchOptions = options\<rparr>
        # makeBatches starts ends options batchSize (i + batchSize)
      else [])"
  by pat_completeness auto
termination
  by (relation "measure (\<lambda>(starts, ends, options, batchSize, i). length starts - i)") auto

subsection \<open>Submitting the chunks and awaiting them\<close>

text \<open>\<^verbatim>\<open>batches.map(batch => this.scheduleTask(processBatch, batch))\<close>: one call per
  batch, in order, each on the state the previous one left. \<open>postOk i\<close> says whether
  posting the message of task \<open>i\<close> succeeds.\<close>

fun scheduleAll ::
  "(nat \<Rightarrow> bool) \<Rightarrow> 'a list \<Rightarrow> ('a, 'v) pool \<Rightarrow> (pool_error + nat) list \<times> ('a, 'v) pool" where
  "scheduleAll postOk [] s = ([], s)"
| "scheduleAll postOk (b # bs) s =
     (let (r, s1) = scheduleTask (postOk (nextTaskId s)) b s;
          (rs, s2) = scheduleAll postOk bs s1
      in (r # rs, s2))"

text \<open>\<^verbatim>\<open>Promise.all\<close> over the promises that \<^verbatim>\<open>scheduleTask\<close> returned, read off the
  log of callback calls: it rejects with the first rejection (a promise rejected inside
  \<^verbatim>\<open>scheduleTask\<close> comes before any later event), it resolves with the values in the
  order of the promises once every one is resolved, and it is pending (\<open>None\<close>)
  otherwise.\<close>

fun first_refused :: "(pool_error + nat) list \<Rightarrow> pool_error option" where
  "first_refused [] = None"
| "first_refused (Inl e # ps) = Some e"
| "first_refused (Inr i # ps) = first_refused ps"

fun pending_ids :: "(pool_error + nat) list \<Rightarrow> nat list" where
  "pending_ids [] = []"
| "pending_ids (Inl e # ps) = pending_ids ps"
| "pending_ids (Inr i # ps) = i # pending_ids ps"

fun first_failure :: "nat list \<Rightarrow> 'v settlement list \<Rightarrow> pool_error option" where
  "first_failure ids [] = None"
| "first_failure ids (ev # evs) =
     (case settled_with ev of
        Rejected e \<Rightarrow> if task_id ev \<in> set ids then Some e else first_failure ids evs
      | Resolved v \<Rightarrow> first_failure ids evs)"

fun resolved_value :: "nat \<Rightarrow> 'v settlement list \<Rightarrow> 'v option" where
  "resolved_value i [] = None"
| "resolved_value i (ev # evs) =
     (if task_id ev = i then
        (case settled_with ev of Resolved v \<Rightarrow> Some v | Rejected e \<Rightarrow> None)
      else resolved_value i evs)"

fun resolved_values :: "nat list \<Rightarrow> 'v settlement list \<Rightarrow> 'v list option" where
  "resolved_values [] evs = Some []"
| "resolved_values (i # ids) evs =
     (case resolved_value i evs of
        None \<Rightarrow> None
      | Some v \<Rightarrow> (case resolved_values ids evs of None \<Rightarrow> None | Some vs \<Rightarrow> Some (v # vs)))"

definition promiseAll ::
  "(pool_error + nat) list \<Rightarrow> 'v settlement list \<Rightarrow> (pool_error + 'v list) option" where
  "promiseAll promises evs =
     (case first_refused promises of
        Some e \<Rightarrow> Some (Inl e)
      | None \<Rightarrow>
          (case first_failure (pending_ids promises) evs of
             Some e \<Rightarrow> Some (Inl e)
           | None \<Rightarrow> map_option Inr (resolved_values (pending_ids promises) evs)))"

subsection \<open>generateBezierPaths\<close>

text \<open>The native module is not part of the sources; it is an argument. \<open>native\<close> is
  \<^verbatim>\<open>this.cppModule.batchGenerateBezierPaths\<close> when the module was loaded and has that
  function, \<open>None\<close> otherwise. The addon's functions are synchronous (the benchmark
  scripts and the test's mock call them so): a call returns the paths (\<open>Inr\<close>) or throws
  (\<open>Inl\<close>).\<close>

type_synonym native_batch =
  "Point list \<Rightarrow> Point list \<Rightarrow> BezierOptions \<Rightarrow> nat \<Rightarrow> string + Point list list"

text \<open>What an \<^verbatim>\<open>async\<close> batch method has done when it first suspends or returns: it
  has returned or thrown (\<open>Done\<close>), or it awaits the promises of its chunk tasks.\<close>

datatype 'r progress = Done "pool_error + 'r" | AwaitAll "(pool_error + nat) list"

definition bezierFallback ::
  "(nat \<Rightarrow> bool) \<Rightarrow> Point list \<Rightarrow> Point list \<Rightarrow> BezierOptions \<Rightarrow>
   (Batch, 'v) pool \<Rightarrow> 'r progress \<times> (Batch, 'v) pool" where
  "bezierFallback postOk starts ends options s =
     (let batchSize = batchSizeFor (length starts) (length (workers s));
          batches = makeBatches starts ends options batchSize 0;
          (promises, s1) = scheduleAll postOk batches s
      in (AwaitAll promises, s1))"

definition generateBezierPaths ::
  "native_batch option \<Rightarrow> nat \<Rightarrow> (nat \<Rightarrow> bool) \<Rightarrow>
   Point list \<Rightarrow> Point list \<Rightarrow> BezierOptions \<Rightarrow>
   (Batch, 'v) pool \<Rightarrow> Point list list progress \<times> (Batch, 'v) pool" where
  "generateBezierPaths native draw postOk starts ends options s =
     (if \<not> running s then (Done (Inl NotRunning), s)
      else if length starts \<noteq> length ends then (Done (Inl LengthMismatch), s)
      else if length starts = 0 then (Done (Inr []), s)
      else
        (case (if \<not> fallbackMode s then native else None) of
           Some batchGenerateBezierPaths \<Rightarrow>
             (case batchGenerateBezierPaths starts ends options
                     (case seed options of Some sd \<Rightarrow> sd | None \<Rightarrow> draw) of
                Inr paths \<Rightarrow> (Done (Inr paths), s)
              | Inl thrown \<Rightarrow>
                  bezierFallback postOk starts ends options (warn NativeBatchFailed s))
         | None \<Rightarrow> bezierFallback postOk starts ends options s))"

text \<open>The value of the promise that \<^verbatim>\<open>generateBezierPaths\<close> returned, given the log of
  callback calls so far: \<^verbatim>\<open>(await Promise.all(...)).flat()\<close>.\<close>

definition bezierResult ::
  "Point list list progress \<Rightarrow> Point list list settlement list \<Rightarrow>
   (pool_error + Point list list) option" where
  "bezierResult p evs =
     (case p of
        Done r \<Rightarrow> Some r
      | AwaitAll promises \<Rightarrow>
          (case promiseAll promises evs of
             None \<Rightarrow> None
           | Some (Inl e) \<Rightarrow> Some (Inl e)
           | Some (Inr chunks) \<Rightarrow> Some (Inr (concat chunks))))"

text \<open>The message a worker posts for task \<open>i\<close> when the task function returned \<open>v\<close>
  (worker.js).\<close>

definition resultMessage :: "nat \<Rightarrow> 'v \<Rightarrow> 'v ResultMessage" where
  "resultMessage i v =
     \<lparr>msg_id = Some (int i), msg_type = ResultKind, msg_result = v, msg_error = None\<rparr>"

subsection \<open>simulatePhysicsMovements\<close>

record PhysicsOptions =
  mass :: real
  springConstant :: real
  dampingFactor :: real
  timeStep :: real
  maxSteps :: nat
  stoppingThreshold :: real
  physicsSeed :: "nat option"

text \<open>The points of the paths this method returns are computed in double arithmetic, by
  the native primitive or by the loop of the fallback; their type \<open>'p\<close> is left open.\<close>

type_synonym 'p native_physics =
  "Point list \<Rightarrow> Point list \<Rightarrow> PhysicsOptions \<Rightarrow> nat \<Rightarrow> string + 'p list list"

text \<open>The fallback of \<^verbatim>\<open>simulatePhysicsMovements\<close>: a straight line of
  \<^verbatim>\<open>Math.min(options.maxSteps, 100)\<close> points. \<open>interpolate start end j n\<close> is the point
  the loop body pushes at index \<open>j\<close> of \<open>n\<close>, the doubles
  \<^verbatim>\<open>start.x + (end.x - start.x) * t\<close> and \<^verbatim>\<open>start.y + (end.y - start.y) * t\<close> for
  \<^verbatim>\<open>t = j / (numPoints - 1)\<close> (with a single point \<^verbatim>\<open>t\<close> is 0 / 0).\<close>

definition linearPath ::
  "(Point \<Rightarrow> Point \<Rightarrow> nat \<Rightarrow> nat \<Rightarrow> 'p) \<Rightarrow> PhysicsOptions \<Rightarrow> Point \<Rightarrow> Point \<Rightarrow> 'p list" where
  "linearPath interpolate options startPoint endPoint =
     (let n = min (maxSteps options) 100
      in map (\<lambda>j. interpolate startPoint endPoint j n) [0..<n])"

definition simulatePhysicsMovements ::
  "(Point \<Rightarrow> Point \<Rightarrow> nat \<Rightarrow> nat \<Rightarrow> 'p) \<Rightarrow> 'p native_physics option \<Rightarrow> nat \<Rightarrow>
   Point list \<Rightarrow> Point list \<Rightarrow> PhysicsOptions \<Rightarrow>
   ('a, 'v) pool \<Rightarrow> (pool_error + 'p list list) \<times> ('a, 'v) pool" where
  "simulatePhysicsMovements interpolate native draw starts ends options s =
     (if \<not> running s then (Inl NotRunning, s)
      else if length starts \<noteq> length ends then (Inl LengthMismatch, s)
      else if length starts = 0 then (Inr [], s)
      else
        (let linear = map (\<lambda>i. linearPath interpolate options (starts ! i) (ends ! i))
                        [0..<length starts]
         in case (if \<not> fallbackMode s then native else None) of
              Some batchSimulatePhysicsMovements \<Rightarrow>
                (case batchSimulatePhysicsMovements starts ends options
                        (case physicsSeed options of Some sd \<Rightarrow> sd | None \<Rightarrow> draw) of
                   Inr paths \<Rightarrow> (Inr paths, s)
                 | Inl thrown \<Rightarrow> (Inr linear, warn NativeBatchFailed s))
            | None \<Rightarrow> (Inr linear, s)))"

section \<open>Backend selection (MathModuleBridge.ts)\<close>

datatype MathModuleType = TYPESCRIPT | CPP | PYTHON | FORTRAN

text \<open>The static fields of \<^verbatim>\<open>MathModuleFactory\<close> after initialisation: the kinds that
  have an instance, and the active kind.\<close>

record factory =
  instances :: "MathModuleType set"
  activeType :: MathModuleType

definition getBestAvailableType :: "MathModuleType set \<Rightarrow> MathModuleType" where
  "getBestAvailableType registered =
     (let availableTypes = filter (\<lambda>t. t \<in> registered) [CPP, PYTHON, FORTRAN, TYPESCRIPT]
      in if availableTypes = [TYPESCRIPT] then TYPESCRIPT
         else
           (case find (\<lambda>t. t \<in> registered) [CPP, FORTRAN, PYTHON, TYPESCRIPT] of
              Some t \<Rightarrow> t
            | None \<Rightarrow> TYPESCRIPT))"

text \<open>\<^verbatim>\<open>benchmarkAndSelectBest\<close>. The two nested benchmark loops time every available
  backend and leave a table \<^verbatim>\<open>results\<close> of one score per kind, a sum of terms
  \<^verbatim>\<open>(1000 / avgTime) * weight\<close> computed in double arithmetic from measured times (0 for a
  kind that was not run). The table is what the selection reads, and it is the
  parameter \<open>results\<close> here. The scores are positive doubles, 0 or \<^verbatim>\<open>Infinity\<close> (never
  \<^verbatim>\<open>NaN\<close>: the times are not negative and the weights are positive); the selection only
  compares them with \<^verbatim>\<open>>\<close>, so their type is any linear order.

  The selection loop runs over \<^verbatim>\<open>Object.entries(results)\<close>, whose keys stand in the order
  of the object literal: typescript, cpp, python, fortran.\<close>

definition selectBest ::
  "(MathModuleType \<Rightarrow> 's::linorder) \<Rightarrow> MathModuleType set \<Rightarrow> MathModuleType" where
  "selectBest results registered =
     fst (fold (\<lambda>moduleType (bestModule, bestScore).
                  if results moduleType > bestScore \<and> moduleType \<in> registered
                  then (moduleType, results moduleType) else (bestModule, bestScore))
            [TYPESCRIPT, CPP, PYTHON, FORTRAN]
            (TYPESCRIPT, results TYPESCRIPT))"

definition benchmarkAndSelectBest ::
  "(MathModuleType \<Rightarrow> 's::linorder) \<Rightarrow> factory \<Rightarrow> MathModuleType \<times> factory" where
  "benchmarkAndSelectBest results f =
     (let availableTypes =
            filter (\<lambda>t. t \<in> instances f) [TYPESCRIPT, CPP, PYTHON, FORTRAN]
      in if availableTypes = [TYPESCRIPT] then (TYPESCRIPT, f)
         else
           let bestModule = selectBest results (instances f)
           in (bestModule, f\<lparr>activeType := bestModule\<rparr>))"

section \<open>Concrete pools\<close>

text \<open>Inputs at which the statements below are evaluated: a pool on a machine with two
  hardware threads (hence one worker) and room for one pending task, once its worker is
  created; the same pool with one task pending; and with two workers and two tasks.\<close>

definition example_options :: "int option \<Rightarrow> int option \<Rightarrow> ThreadPoolOptions" where
  "example_options threads queueSize =
     \<lparr>jsThreads = threads, maxQueueSizeOpt = queueSize, taskTimeoutOpt = None\<rparr>"

definition always :: "nat \<Rightarrow> bool" where
  "always i = True"

definition example_pool :: "(nat, nat) pool" where
  "example_pool = start_resume always (constructor 2 False (example_options None (Some 1)))"

definition example_busy :: "(nat, nat) pool" where
  "example_busy = snd (scheduleTask True 7 example_pool)"

text \<open>The pool as \<^verbatim>\<open>new ThreadPoolManager({ jsThreads: 2 })\<close> returns it, on a machine with
  four hardware threads and without the native module.\<close>

definition example_fresh :: "(nat, nat) pool" where
  "example_fresh = constructor 4 False (example_options (Some 2) None)"

text \<open>Inputs for the batch operations: a pool with two workers without the native module,
  one with it, a native batch primitive that throws, and an interpolation for the
  physics fallback.\<close>

definition pt :: "real \<Rightarrow> real \<Rightarrow> Point" where
  "pt a b = \<lparr>coord_x = a, coord_y = b\<rparr>"

definition example_bezier_options :: BezierOptions where
  "example_bezier_options =
     \<lparr>numPoints = 3, complexity = 1 / 2, overshootFactor = 1 / 5, jitterAmount = 1,
      seed = Some 12345\<rparr>"

definition example_physics_options :: PhysicsOptions where
  "example_physics_options =
     \<lparr>mass = 1, springConstant = 8, dampingFactor = 7 / 10, timeStep = 2 / 125,
      maxSteps = 3, stoppingThreshold = 1 / 10, physicsSeed = None\<rparr>"

definition example_interpolate :: "Point \<Rightarrow> Point \<Rightarrow> nat \<Rightarrow> nat \<Rightarrow> Point" where
  "example_interpolate startPoint endPoint j n = (if j = 0 then startPoint else endPoint)"


definition example_bezier_pool :: "(Batch, Point list list) pool" where
  "example_bezier_pool = start_resume always (constructor 4 False (example_options None None))"

definition example_native_pool :: "(Batch, Point list list) pool" where
  "example_native_pool = start_resume always (constructor 4 True (example_options None None))"

definition failing_native :: native_batch where
  "failing_native starts ends options sd = Inl ''native batch failed''"

text \<open>The position of a kind in the scan of \<^verbatim>\<open>benchmarkAndSelectBest\<close>'s selection loop;
  the score table of a benchmark in which the reference and the C++ backends each took
  1 ms on average in all four test cases (the same sum of four terms for both, 5000)
  and the two other kinds were not run, and the table of one in which the
  reference backend took 2 ms where the C++ backend took 1 ms; a registry holding the
  reference and the C++ backends.\<close>

fun scan_position :: "MathModuleType \<Rightarrow> nat" where
  "scan_position TYPESCRIPT = 0"
| "scan_position CPP = 1"
| "scan_position PYTHON = 2"
| "scan_position FORTRAN = 3"

definition equal_scores :: "MathModuleType \<Rightarrow> real" where
  "equal_scores m = (if m = TYPESCRIPT \<or> m = CPP then 5000 else 0)"

definition cpp_ahead :: "MathModuleType \<Rightarrow> real" where
  "cpp_ahead m = (if m = CPP then 5000 else if m = TYPESCRIPT then 2500 else 0)"

definition example_factory :: factory where
  "example_factory = \<lparr>instances = {TYPESCRIPT, CPP}, activeType = CPP\<rparr>"

text \<open>A pool with two workers and the default queue bound, and the same pool with two
  tasks pending.\<close>

definition example_wide :: "(nat, nat) pool" where
  "example_wide = start_resume always (constructor 4 False (example_options None None))"

definition example_two :: "(nat, nat) pool" where
  "example_two = run [Submit True 7, Submit True 8] example_wide"

text \<open>A history of the one-worker pool: the worker is created, a task is submitted and its
  result arrives; and what may come later: a second message for the same task, its timer
  (already cleared), a message for an id never handed out.\<close>

definition example_history :: "(nat, nat) action list" where
  "example_history = [StartResume always, Submit True 7, Message (resultMessage 0 42)]"

definition example_later :: "(nat, nat) action list" where
  "example_later = [Message (resultMessage 0 43), TimerFires 0, Message (resultMessage 5 1)]"

section \<open>Chunks and the sequential reference\<close>

text \<open>The \<open>k\<close>-th chunk of the inputs for a given batch size, and the sequential
  per-item computation of the whole input, \<open>draws i\<close> being the random draw made for item
  \<open>i\<close> (read only when the options carry no seed).\<close>

definition chunkAt :: "Point list \<Rightarrow> Point list \<Rightarrow> BezierOptions \<Rightarrow> nat \<Rightarrow> nat \<Rightarrow> Batch" where
  "chunkAt starts ends options batchSize k =
     \<lparr>startPoints = slice starts (k * batchSize) (k * batchSize + batchSize),
      endPoints = slice ends (k * batchSize) (k * batchSize + batchSize),
      batchOptions = options\<rparr>"

definition sequentialPaths ::
  "(nat \<Rightarrow> Point \<Rightarrow> Point \<Rightarrow> BezierOptions \<Rightarrow> Point list) \<Rightarrow> (nat \<Rightarrow> nat) \<Rightarrow>
   Point list \<Rightarrow> Point list \<Rightarrow> BezierOptions \<Rightarrow> Point list list" where
  "sequentialPaths curve draws starts ends options =
     map (\<lambda>i. generateBezierPath curve (draws i) (starts ! i) (ends ! i) options)
       [0..<length starts]"

text \<open>Three input pairs, a stand-in for the curve computation (it depends on the seed,
  the two points and the options), and draws that are all 0.\<close>

definition example_starts :: "Point list" where
  "example_starts = [pt 0 0, pt 1 1, pt 2 2]"

definition example_ends :: "Point list" where
  "example_ends = [pt 5 5, pt 6 6, pt 7 7]"

definition example_curve :: "nat \<Rightarrow> Point \<Rightarrow> Point \<Rightarrow> BezierOptions \<Rightarrow> Point list" where
  "example_curve sd a b options = [a, pt (real sd) (real (numPoints options)), b]"

definition no_draws :: "nat \<Rightarrow> nat" where
  "no_draws i = 0"

text \<open>The message a worker posts for task \<open>i\<close> when rebuilding or running the task
  function threw \<open>e\<close> (the \<^verbatim>\<open>catch\<close> of the message handler of worker.js; the message has
  no \<^verbatim>\<open>result\<close> field, which the coordinator does not read then).\<close>

definition taskFailed :: "nat \<Rightarrow> worker_error \<Rightarrow> Point list list ResultMessage" where
  "taskFailed i e =
     \<lparr>msg_id = Some (int i), msg_type = ResultKind, msg_result = [], msg_error = Some e\<rparr>"

section \<open>The invariant of the scheduler\<close>

text \<open>What holds of a pool between any two events: the registry has one entry per id,
  each holding the timer of its own task, and only ids that were handed out; the live
  timers are exactly the timers of the registered ids; a task whose callback was called
  has an id that was handed out and has no entry; at the call its timer was not live, and
  its entry was gone unless the call was the rejection made by \<^verbatim>\<open>shutdown\<close>; and no task
  has had a callback called twice.\<close>

definition pool_inv :: "('a, 'v) pool \<Rightarrow> bool" where
  "pool_inv s \<longleftrightarrow>
     distinct (map fst (taskQueue s)) \<and>
     (\<forall>(i, t) \<in> set (taskQueue s). t = Some i \<and> i < nextTaskId s) \<and>
     timers s = fst ` set (taskQueue s) \<and>
     (\<forall>e \<in> set (settled s).
        task_id e < nextTaskId s \<and> task_id e \<notin> fst ` set (taskQueue s) \<and>
        \<not> timer_live e \<and>
        (still_registered e \<longrightarrow> settled_with e = Rejected ShuttingDown)) \<and>
     distinct (map task_id (settled s))"

section \<open>Properties of the scheduler\<close>

subsection \<open>Auxiliary facts\<close>

lemmas prim_defs = invoke_def clearTimeout_def clearTimeoutOf_def queue_delete_def warn_def

lemmas terminate_defs = terminateWorkers_def terminateWorkers_await_def terminateWorkers_begin_def

lemma constructor_fields:
  "jsThreadCount (constructor hw cppLoads options) = determineThreadCount hw (jsThreads options)"
  "running (constructor hw cppLoads options)"
  "workers (constructor hw cppLoads options) = []"
  "taskQueue (constructor hw cppLoads options) = []"
  "maxQueueSize (constructor hw cppLoads options) = or_default (maxQueueSizeOpt options) 10000"
  by (simp_all add: constructor_def start_begin_def terminateWorkers_begin_def)

lemmas example_defs = example_options_def always_def
  constructor_def start_begin_def start_resume_def initializeWorkers_resume_def start_finish_def terminate_defs createWorker_def
  determineThreadCount_def or_default_def

lemma example_pool_eval:
  "example_pool =
     \<lparr>workers = [0], jsThreadCount = 1, taskQueue = [], nextTaskId = 0, running = True,
      fallbackMode = True, maxQueueSize = 1, taskTimeout = 30000, timers = {}, settled = [],
      posted = [], terminating = [], exited = [], spawned = 1, warnings = [],
      emitted = [''started'']\<rparr>"
  by (simp add: example_pool_def example_defs Let_def)

lemma example_busy_eval:
  "example_busy =
     \<lparr>workers = [0], jsThreadCount = 1, taskQueue = [(0, Some 0)], nextTaskId = 1,
      running = True, fallbackMode = True, maxQueueSize = 1, taskTimeout = 30000,
      timers = {0}, settled = [], posted = [(0, 0, 7)], terminating = [], exited = [],
      spawned = 1, warnings = [], emitted = [''started'']\<rparr>"
  by (simp add: example_busy_def example_pool_eval scheduleTask_def Let_def)

lemma length_update_le: "length (AList.update k v al) \<le> Suc (length al)"
  by (induction al) auto

lemma length_delete_update_le:
  "length (AList.delete k (AList.update k v al)) \<le> length al"
  by (simp add: delete_update_same length_delete_le)

lemma fold_createWorker_queue:
  "taskQueue (fold (\<lambda>i. createWorker (f i) i) xs s) = taskQueue s \<and>
   maxQueueSize (fold (\<lambda>i. createWorker (f i) i) xs s) = maxQueueSize s"
  by (induction xs arbitrary: s) (auto simp: createWorker_def)

text \<open>The loop of \<^verbatim>\<open>shutdown\<close> touches the timers and the log of callback calls
  only.\<close>

lemma rejectPending_fold_frame:
  fixes s :: "('a, 'v) pool"
  defines "f \<equiv> (\<lambda>(taskId, timeoutId) s'. invoke taskId (Rejected ShuttingDown)
             (clearTimeoutOf timeoutId (s' :: ('a, 'v) pool)))"
  shows "workers (fold f xs s) = workers s"
    and "jsThreadCount (fold f xs s) = jsThreadCount s"
    and "taskQueue (fold f xs s) = taskQueue s"
    and "nextTaskId (fold f xs s) = nextTaskId s"
    and "running (fold f xs s) = running s"
    and "fallbackMode (fold f xs s) = fallbackMode s"
    and "maxQueueSize (fold f xs s) = maxQueueSize s"
    and "taskTimeout (fold f xs s) = taskTimeout s"
    and "posted (fold f xs s) = posted s"
    and "terminating (fold f xs s) = terminating s"
    and "exited (fold f xs s) = exited s"
    and "spawned (fold f xs s) = spawned s"
    and "warnings (fold f xs s) = warnings s"
    and "emitted (fold f xs s) = emitted s"
  by (induction xs arbitrary: s; simp add: f_def prim_defs split: option.splits prod.splits)+

lemma rejectPending_frame [simp]:
  "workers (rejectPending s) = workers s"
  "jsThreadCount (rejectPending s) = jsThreadCount s"
  "taskQueue (rejectPending s) = taskQueue s"
  "nextTaskId (rejectPending s) = nextTaskId s"
  "running (rejectPending s) = running s"
  "fallbackMode (rejectPending s) = fallbackMode s"
  "maxQueueSize (rejectPending s) = maxQueueSize s"
  "taskTimeout (rejectPending s) = taskTimeout s"
  "posted (rejectPending s) = posted s"
  "terminating (rejectPending s) = terminating s"
  "exited (rejectPending s) = exited s"
  "spawned (rejectPending s) = spawned s"
  "warnings (rejectPending s) = warnings s"
  "emitted (rejectPending s) = emitted s"
  unfolding rejectPending_def by (rule rejectPending_fold_frame)+

subsection \<open>The thread count\<close>




subsection \<open>Submission fails fast\<close>

lemma scheduleTask_maxQueueSize [simp]:
  "maxQueueSize (snd (scheduleTask ok p s)) = maxQueueSize s"
  by (simp add: scheduleTask_def Let_def prim_defs)

lemma scheduleTask_bound:
  assumes "int (length (taskQueue s)) \<le> maxQueueSize s"
  shows "int (length (taskQueue (snd (scheduleTask ok p s)))) \<le> maxQueueSize s"
proof -
  let ?i = "nextTaskId s"
  have a: "int (length (AList.delete ?i (AList.update ?i (Some ?i) (taskQueue s))))
           \<le> maxQueueSize s"
    using assms length_delete_update_le[of ?i "Some ?i" "taskQueue s"] by linarith
  have b: "\<not> maxQueueSize s \<le> int (length (taskQueue s)) \<Longrightarrow>
        int (length (AList.update ?i (Some ?i) (taskQueue s))) \<le> maxQueueSize s"
    using length_update_le[of ?i "Some ?i" "taskQueue s"] by linarith
  show ?thesis using assms a b
    by (simp add: scheduleTask_def Let_def prim_defs)
qed

lemma handleWorkerMessage_bound:
  "maxQueueSize (handleWorkerMessage m s) = maxQueueSize s \<and>
   length (taskQueue (handleWorkerMessage m s)) \<le> length (taskQueue s)"
  by (simp add: handleWorkerMessage_def Let_def prim_defs length_delete_le split: option.splits)

lemma timeoutFires_bound:
  "maxQueueSize (timeoutFires i s) = maxQueueSize s \<and>
   length (taskQueue (timeoutFires i s)) \<le> length (taskQueue s)"
  by (simp add: timeoutFires_def Let_def prim_defs length_delete_le split: option.splits)

lemma shutdown_bound:
  "maxQueueSize (shutdown s) = maxQueueSize s \<and>
   length (taskQueue (shutdown s)) \<le> length (taskQueue s)"
  by (simp add: shutdown_def shutdown_begin_def shutdown_resume_def Let_def terminate_defs)

lemma shutdown_resume_frame:
  "taskQueue (shutdown_resume s) = taskQueue s"
  "nextTaskId (shutdown_resume s) = nextTaskId s"
  "timers (shutdown_resume s) = timers s"
  "settled (shutdown_resume s) = settled s"
  "maxQueueSize (shutdown_resume s) = maxQueueSize s"
  "running (shutdown_resume s) = running s"
  "workers (shutdown_resume s) = workers s"
  by (simp_all add: shutdown_resume_def Let_def terminateWorkers_await_def)

lemma shutdown_begin_frame:
  "taskQueue (shutdown_begin s) = taskQueue (shutdown s)"
  "nextTaskId (shutdown_begin s) = nextTaskId (shutdown s)"
  "timers (shutdown_begin s) = timers (shutdown s)"
  "settled (shutdown_begin s) = settled (shutdown s)"
  "maxQueueSize (shutdown_begin s) = maxQueueSize (shutdown s)"
  "running (shutdown_begin s) = running (shutdown s)"
  by (simp_all add: shutdown_def shutdown_resume_frame) (simp_all add: shutdown_begin_def)

lemma step_bound:
  "maxQueueSize (step a s) = maxQueueSize s \<and>
   (int (length (taskQueue s)) \<le> maxQueueSize s \<longrightarrow>
    int (length (taskQueue (step a s))) \<le> maxQueueSize s)"
proof (cases a)
  case (Submit ok p)
  then show ?thesis using scheduleTask_bound[of s ok p] by simp
next
  case (Message m)
  then show ?thesis using handleWorkerMessage_bound[of m s] by auto
next
  case (TimerFires i)
  then show ?thesis using timeoutFires_bound[of i s] by auto
next
  case Shutdown
  then show ?thesis using shutdown_bound[of s] by auto
next
  case ShutdownBegin
  then show ?thesis using shutdown_bound[of s] by (auto simp: shutdown_begin_frame)
next
  case ShutdownResume
  then show ?thesis by (simp add: shutdown_resume_frame)
next
  case StartBegin
  then show ?thesis by (simp add: start_begin_def terminateWorkers_begin_def)
next
  case (StartResume f)
  then show ?thesis
    by (simp add: start_resume_def initializeWorkers_resume_def start_finish_def Let_def fold_createWorker_queue terminateWorkers_await_def)
next
  case (WorkerExit w)
  then show ?thesis by (simp add: workerExit_def)
next
  case (Respawn ok slot)
  then show ?thesis by (simp add: createWorker_def)
qed

lemma run_bound:
  "int (length (taskQueue s)) \<le> maxQueueSize s \<Longrightarrow>
   maxQueueSize (run acts s) = maxQueueSize s \<and>
   int (length (taskQueue (run acts s))) \<le> maxQueueSize s"
  unfolding run_def
proof (induction acts arbitrary: s)
  case Nil
  then show ?case by simp
next
  case (Cons a acts)
  have "int (length (taskQueue (step a s))) \<le> maxQueueSize (step a s)"
    using Cons.prems step_bound[of a s] by simp
  from Cons.IH[OF this] show ?case using step_bound[of a s] by simp
qed

text \<open>
  C4. \<^verbatim>\<open>scheduleTask\<close> on a pool that is not running rejects at once with the 'not
  running' error; on a running pool whose registry holds \<^verbatim>\<open>maxQueueSize\<close> entries (or
  more) it rejects at once with the 'queue full' error. In both cases the state is left
  as it was: no task id is allocated, no timer is created, the registry is unchanged.
  So a registry within the bound stays within it, whatever happens to the pool.
\<close>

theorem scheduleTask_fails_fast:
  "(\<not> running s \<longrightarrow> scheduleTask postOk payload s = (Inl NotRunning, s)) \<and>
   (running s \<and> maxQueueSize s \<le> int (length (taskQueue s)) \<longrightarrow>
      scheduleTask postOk payload s = (Inl QueueFull, s)) \<and>
   (int (length (taskQueue s)) \<le> maxQueueSize s \<longrightarrow>
      int (length (taskQueue (run acts s))) \<le> maxQueueSize (run acts s))"
  using run_bound[of s acts] by (simp add: scheduleTask_def)

lemma shutdown_not_running: "\<not> running (shutdown s)"
  by (simp add: shutdown_def shutdown_begin_def shutdown_resume_def Let_def terminate_defs)

theorem scheduleTask_fails_fast_witness:
  "scheduleTask True 5 (shutdown example_busy) = (Inl NotRunning, shutdown example_busy) \<and>
   scheduleTask True 5 example_busy = (Inl QueueFull, example_busy) \<and>
   int (length (taskQueue (run [Submit True 5, TimerFires 0, Submit False 6] example_pool)))
     \<le> maxQueueSize (run [Submit True 5, TimerFires 0, Submit False 6] example_pool)"
proof -
  have a: "\<not> running (shutdown example_busy)" by (rule shutdown_not_running)
  have b: "running example_busy \<and>
           maxQueueSize example_busy \<le> int (length (taskQueue example_busy))"
    by (simp add: example_busy_eval)
  have c: "int (length (taskQueue example_pool)) \<le> maxQueueSize example_pool"
    by (simp add: example_pool_eval)
  show ?thesis
    using a b c scheduleTask_fails_fast[of "shutdown example_busy" True 5 "[]"]
      scheduleTask_fails_fast[of example_busy True 5 "[]"]
      scheduleTask_fails_fast[of example_pool True 5
        "[Submit True 5, TimerFires 0, Submit False 6]"]
    by blast
qed

subsection \<open>Shutdown and start\<close>

lemma clearTimeoutOf_frame [simp]:
  "taskQueue (clearTimeoutOf t s) = taskQueue s"
  "settled (clearTimeoutOf t s) = settled s"
  "nextTaskId (clearTimeoutOf t s) = nextTaskId s"
  by (simp_all add: clearTimeoutOf_def clearTimeout_def split: option.splits)

lemma clearTimeoutOf_timers:
  "timers (clearTimeoutOf t s) = timers s - {h. t = Some h}"
  by (auto simp: clearTimeoutOf_def clearTimeout_def split: option.splits)

lemma invoke_frame [simp]:
  "taskQueue (invoke i out s) = taskQueue s"
  "timers (invoke i out s) = timers s"
  "nextTaskId (invoke i out s) = nextTaskId s"
  by (simp_all add: invoke_def)

lemma rejectPending_fold_settled:
  fixes s :: "('a, 'v) pool"
  shows "\<exists>evs. settled (fold (\<lambda>(taskId, timeoutId) s'. invoke taskId (Rejected ShuttingDown)
                 (clearTimeoutOf timeoutId s')) xs s) = settled s @ evs \<and>
           map (\<lambda>e. (task_id e, settled_with e, still_registered e)) evs =
           map (\<lambda>(i, t). (i, Rejected ShuttingDown, i \<in> fst ` set (taskQueue s))) xs"
proof (induction xs arbitrary: s)
  case Nil
  show ?case by simp
next
  case (Cons x xs)
  let ?f = "\<lambda>(taskId, timeoutId) s'. invoke taskId (Rejected ShuttingDown)
                 (clearTimeoutOf timeoutId (s' :: ('a, 'v) pool))"
  obtain i t where x: "x = (i, t)" by (cases x)
  have fx: "?f x s = invoke i (Rejected ShuttingDown) (clearTimeoutOf t s)"
    by (simp add: x)
  have q: "taskQueue (?f x s) = taskQueue s"
    unfolding fx by simp
  define ev :: "'v settlement" where
    "ev = \<lparr>task_id = i, settled_with = Rejected ShuttingDown,
            still_registered = (i \<in> fst ` set (taskQueue s)),
            timer_live = (i \<in> timers (clearTimeoutOf t s))\<rparr>"
  have ev: "settled (?f x s) = settled s @ [ev]"
    unfolding fx ev_def by (simp add: invoke_def)
  from Cons.IH[of "?f x s"] obtain evs where
    evs: "settled (fold ?f xs (?f x s)) = settled (?f x s) @ evs"
    "map (\<lambda>e. (task_id e, settled_with e, still_registered e)) evs =
       map (\<lambda>(i, t). (i, Rejected ShuttingDown, i \<in> fst ` set (taskQueue s))) xs"
    unfolding q by blast
  have "settled (fold ?f (x # xs) s) = settled s @ (ev # evs)"
    using ev evs(1) by simp
  moreover have "map (\<lambda>e. (task_id e, settled_with e, still_registered e)) (ev # evs) =
       map (\<lambda>(i, t). (i, Rejected ShuttingDown, i \<in> fst ` set (taskQueue s))) (x # xs)"
    using evs(2) by (simp add: x ev_def)
  ultimately show ?case by blast
qed

lemma rejectPending_fold_timers:
  "timers (fold (\<lambda>(taskId, timeoutId) s'. invoke taskId (Rejected ShuttingDown)
                 (clearTimeoutOf timeoutId s')) xs s)
     = timers s - {t. \<exists>i. (i, Some t) \<in> set xs}"
proof (induction xs arbitrary: s)
  case Nil
  show ?case by simp
next
  case (Cons x xs)
  obtain i t where x: "x = (i, t)" by (cases x)
  show ?case
    by (simp add: Cons.IH x clearTimeoutOf_timers) auto
qed

lemma rejectPending_effect:
  "\<exists>evs. settled (rejectPending s) = settled s @ evs \<and>
     map (\<lambda>e. (task_id e, settled_with e, still_registered e)) evs =
     map (\<lambda>(i, t). (i, Rejected ShuttingDown, i \<in> fst ` set (taskQueue s))) (taskQueue s)"
  "timers (rejectPending s) = timers s - {t. \<exists>i. (i, Some t) \<in> set (taskQueue s)}"
  unfolding rejectPending_def
  by (rule rejectPending_fold_settled, rule rejectPending_fold_timers)

text \<open>
  A call of \<^verbatim>\<open>shutdown()\<close> on a running pool during whose suspension nothing else happens
  sets the running flag to false, rejects every entry of the pending registry with the
  'shutting down' error (in insertion order, each while its entry is still in the
  registry), cancels each entry's timeout timer, empties the registry, and terminates
  every worker of the pool, returning when each has confirmed its exit. On a pool that
  is not running it returns at once and changes nothing.
\<close>

theorem shutdown_rejects_all:
  "(running s \<longrightarrow>
      \<not> running (shutdown s) \<and>
      (\<exists>calls. settled (shutdown s) = settled s @ calls \<and>
         map (\<lambda>e. (task_id e, settled_with e, still_registered e)) calls =
         map (\<lambda>(i, t). (i, Rejected ShuttingDown, True)) (taskQueue s)) \<and>
      timers (shutdown s) = timers s - {t. \<exists>i. (i, Some t) \<in> set (taskQueue s)} \<and>
      taskQueue (shutdown s) = [] \<and>
      workers (shutdown s) = [] \<and>
      terminating (shutdown s) = [] \<and>
      exited (shutdown s) = exited s @ terminating s @ workers s) \<and>
   (\<not> running s \<longrightarrow> shutdown s = s)"
proof -
  have m: "map (\<lambda>(i, t). (i, Rejected ShuttingDown :: 'b outcome,
                 i \<in> fst ` set (taskQueue s))) (taskQueue s) =
        map (\<lambda>(i, t). (i, Rejected ShuttingDown, True)) (taskQueue s)"
    by (rule map_cong) force+
  have "\<exists>calls. settled (rejectPending (s\<lparr>running := False\<rparr>)) = settled s @ calls \<and>
         map (\<lambda>e. (task_id e, settled_with e, still_registered e)) calls =
         map (\<lambda>(i, t). (i, Rejected ShuttingDown, True)) (taskQueue s)"
    using rejectPending_effect(1)[of "s\<lparr>running := False\<rparr>"] m by simp
  then show ?thesis
    by (simp add: shutdown_def shutdown_begin_def shutdown_resume_def Let_def terminate_defs rejectPending_effect(2))
qed

lemma example_busy_shutdown:
  "settled (shutdown example_busy) =
     [\<lparr>task_id = 0, settled_with = Rejected ShuttingDown, still_registered = True,
       timer_live = False\<rparr>]"
  by (simp add: shutdown_def shutdown_begin_def shutdown_resume_def example_busy_eval Let_def rejectPending_def prim_defs
      terminate_defs)

theorem shutdown_rejects_all_witness:
  "\<not> running (shutdown example_busy) \<and>
   settled (shutdown example_busy) =
     [\<lparr>task_id = 0, settled_with = Rejected ShuttingDown, still_registered = True,
       timer_live = False\<rparr>] \<and>
   timers (shutdown example_busy) = {} \<and>
   taskQueue (shutdown example_busy) = [] \<and>
   workers (shutdown example_busy) = [] \<and>
   exited (shutdown example_busy) = [0] \<and>
   shutdown (shutdown example_busy) = shutdown example_busy"
proof -
  have r: "running example_busy" by (simp add: example_busy_eval)
  have n: "\<not> running (shutdown example_busy)" by (rule shutdown_not_running)
  have t: "timers example_busy - {t. \<exists>i. (i, Some t) \<in> set (taskQueue example_busy)} = {}"
    by (auto simp: example_busy_eval)
  show ?thesis
    using r n t shutdown_rejects_all[of example_busy]
      shutdown_rejects_all[of "shutdown example_busy"] example_busy_shutdown
    by (simp add: example_busy_eval)
qed

lemma example_fresh_eval:
  "example_fresh =
     \<lparr>workers = [], jsThreadCount = 2, taskQueue = [], nextTaskId = 0, running = True,
      fallbackMode = True, maxQueueSize = 10000, taskTimeout = 30000, timers = {},
      settled = [], posted = [], terminating = [], exited = [], spawned = 0, warnings = [],
      emitted = []\<rparr>"
  by (simp add: example_fresh_def example_defs)

text \<open>
  C3. \<^verbatim>\<open>shutdown()\<close> on a running pool is to terminate every worker and to return when
  each has confirmed its exit. The pool is already running when the constructor
  returns: its call of \<^verbatim>\<open>start()\<close> is not awaited and is suspended in
  \<^verbatim>\<open>initializeWorkers\<close>, before any worker is created. After
  \<^verbatim>\<open>new ThreadPoolManager({ jsThreads: 2 })\<close>, \<^verbatim>\<open>await pool.shutdown()\<close> in the same turn
  clears the running flag, finds no worker to terminate and suspends in its turn; the
  suspended \<^verbatim>\<open>initializeWorkers\<close>, which was suspended first, resumes first and creates
  its two workers without looking at the running flag; then \<^verbatim>\<open>shutdown\<close> resumes and
  returns, and \<^verbatim>\<open>start\<close> emits its event. When \<^verbatim>\<open>shutdown\<close> has returned the pool is not
  running and its two workers are alive: none was asked to terminate, none has exited,
  and a second \<^verbatim>\<open>shutdown()\<close> changes nothing.
\<close>

theorem shutdown_leaves_workers:
  "running example_fresh \<and> workers example_fresh = [] \<and>
   \<not> running (shutdown_begin example_fresh) \<and>
   \<not> running (shutdown_resume (initializeWorkers_resume always (shutdown_begin example_fresh))) \<and>
   workers (shutdown_resume (initializeWorkers_resume always (shutdown_begin example_fresh)))
     = [0, 1] \<and>
   exited (shutdown_resume (initializeWorkers_resume always (shutdown_begin example_fresh)))
     = [] \<and>
   workers (shutdown (start_finish (shutdown_resume
      (initializeWorkers_resume always (shutdown_begin example_fresh))))) = [0, 1] \<and>
   shutdown (start_finish (shutdown_resume
      (initializeWorkers_resume always (shutdown_begin example_fresh))))
     = start_finish (shutdown_resume
         (initializeWorkers_resume always (shutdown_begin example_fresh)))"
  by (simp add: example_fresh_eval shutdown_def shutdown_begin_def shutdown_resume_def
      initializeWorkers_resume_def start_finish_def rejectPending_def terminate_defs
      createWorker_def always_def Let_def upt_rec)

lemma fold_createWorker_workers:
  "workers (fold (\<lambda>i. createWorker (f i) i) xs s) \<noteq> [] \<longleftrightarrow>
     workers s \<noteq> [] \<or> (\<exists>i\<in>set xs. f i)"
  by (induction xs arbitrary: s) (auto simp: createWorker_def)

lemma fold_createWorker_frame:
  "taskQueue (fold (\<lambda>i. createWorker (f i) i) xs s) = taskQueue s"
  "maxQueueSize (fold (\<lambda>i. createWorker (f i) i) xs s) = maxQueueSize s"
  "running (fold (\<lambda>i. createWorker (f i) i) xs s) = running s"
  "nextTaskId (fold (\<lambda>i. createWorker (f i) i) xs s) = nextTaskId s"
  "timers (fold (\<lambda>i. createWorker (f i) i) xs s) = timers s"
  "settled (fold (\<lambda>i. createWorker (f i) i) xs s) = settled s"
  by (induction xs arbitrary: s; simp add: createWorker_def)+

text \<open>
  The constructor calls \<^verbatim>\<open>start()\<close>: when it returns the running flag is true, and
  \<^verbatim>\<open>scheduleTask\<close> is never refused as 'not running'; once the suspended \<^verbatim>\<open>start\<close> has
  resumed and created a worker, a task is accepted (given a positive queue bound).
  \<^verbatim>\<open>start()\<close> on a running pool returns at once and leaves the workers, and everything
  else, as they are.
\<close>

theorem constructor_starts_pool:
  "running (constructor hw cppLoads options :: ('a, 'v) pool) \<and>
   fst (scheduleTask postOk payload (constructor hw cppLoads options :: ('a, 'v) pool))
     \<noteq> Inl NotRunning \<and>
   ((\<exists>i. int i < jsThreadCount (constructor hw cppLoads options :: ('a, 'v) pool) \<and> canSpawn i) \<and>
    0 < maxQueueSize (constructor hw cppLoads options :: ('a, 'v) pool) \<longrightarrow>
      fst (scheduleTask True payload
             (start_resume canSpawn (constructor hw cppLoads options :: ('a, 'v) pool))) = Inr 0) \<and>
   (running s \<longrightarrow> start canSpawn s = s \<and> start_begin s = s)"
proof -
  let ?c = "constructor hw cppLoads options :: ('a, 'v) pool"
  let ?s = "start_resume canSpawn ?c"
  have 1: "running ?c" by (simp add: constructor_fields)
  have 2: "fst (scheduleTask postOk payload ?c) \<noteq> Inl NotRunning"
    by (simp add: scheduleTask_def Let_def constructor_fields)
  have 3: "fst (scheduleTask True payload ?s) = Inr 0"
    if "\<exists>i. int i < jsThreadCount ?c \<and> canSpawn i" and "0 < maxQueueSize ?c"
  proof -
    have f: "running ?s" "taskQueue ?s = []" "maxQueueSize ?s = maxQueueSize ?c" "nextTaskId ?s = 0"
      by (simp_all add: start_resume_def initializeWorkers_resume_def start_finish_def Let_def fold_createWorker_frame
          terminateWorkers_await_def constructor_fields)
         (simp_all add: constructor_def start_begin_def terminateWorkers_begin_def)
    from that(1) obtain i where "int i < jsThreadCount ?c" "canSpawn i" by blast
    then have "\<exists>i\<in>set [0..<nat (jsThreadCount ?c)]. canSpawn i" by auto
    then have w: "workers ?s \<noteq> []"
      by (simp add: start_resume_def initializeWorkers_resume_def start_finish_def Let_def fold_createWorker_workers terminateWorkers_await_def)
    show ?thesis using f w that(2) by (simp add: scheduleTask_def Let_def)
  qed
  have 4: "running s \<longrightarrow> start canSpawn s = s \<and> start_begin s = s"
    by (simp add: start_def start_begin_def)
  show ?thesis using 1 2 3 4 by blast
qed


theorem constructor_starts_pool_witness:
  "running (constructor 2 False (example_options None (Some 1)) :: (nat, nat) pool) \<and>
   fst (scheduleTask True 7 (constructor 2 False (example_options None (Some 1)) :: (nat, nat) pool))
     = Inl NoWorkers \<and>
   fst (scheduleTask True 7 example_pool) = Inr 0 \<and>
   start always example_pool = example_pool"
proof -
  let ?c = "constructor 2 False (example_options None (Some 1)) :: (nat, nat) pool"
  have h: "(\<exists>i. int i < jsThreadCount ?c \<and> always i) \<and> 0 < maxQueueSize ?c"
    by (simp add: constructor_fields example_defs)
  have r: "running example_pool" by (simp add: example_pool_eval)
  have n: "fst (scheduleTask True 7 ?c) = Inl NoWorkers"
    by (simp add: scheduleTask_def Let_def prim_defs example_defs)
  show ?thesis
    using h r n
      constructor_starts_pool[where 'a = nat and 'v = nat,
        of 2 False "example_options None (Some 1)" True 7 always example_pool]
    by (simp add: example_pool_def)
qed

text \<open>
  C10. The constructor calls \<^verbatim>\<open>start()\<close>, so that the pool is to be usable immediately
  after construction, without a call of \<^verbatim>\<open>start()\<close>. The call is not awaited: when the
  constructor returns the running flag is true but \<^verbatim>\<open>start\<close> is suspended in
  \<^verbatim>\<open>initializeWorkers\<close> and no worker exists yet, whatever the machine and the options.
  A task scheduled then is not accepted: its promise is rejected with 'No workers
  available' (with 'Task queue is full' under a queue bound that is not positive). At
  \<^verbatim>\<open>new ThreadPoolManager({ jsThreads: 2 })\<close> the worker count is 0 and the task is
  rejected with 'No workers available'; the same task is accepted once the suspended
  \<^verbatim>\<open>start\<close> has resumed and created the two workers.
\<close>

theorem constructor_has_no_workers:
  "running (constructor hw cppLoads options :: ('a, 'v) pool) \<and>
   workers (constructor hw cppLoads options :: ('a, 'v) pool) = [] \<and>
   (fst (scheduleTask postOk payload (constructor hw cppLoads options :: ('a, 'v) pool))
      = Inl NoWorkers \<or>
    fst (scheduleTask postOk payload (constructor hw cppLoads options :: ('a, 'v) pool))
      = Inl QueueFull) \<and>
   length (workers example_fresh) = 0 \<and>
   fst (scheduleTask True 7 example_fresh) = Inl NoWorkers \<and>
   length (workers (start_resume always example_fresh)) = 2 \<and>
   fst (scheduleTask True 7 (start_resume always example_fresh)) = Inr 0"
proof -
  let ?c = "constructor hw cppLoads options :: ('a, 'v) pool"
  have 1: "running ?c" "workers ?c = []" by (simp_all add: constructor_fields)
  have 2: "fst (scheduleTask postOk payload ?c) = Inl NoWorkers \<or>
           fst (scheduleTask postOk payload ?c) = Inl QueueFull"
    by (simp add: scheduleTask_def Let_def constructor_fields)
  have 3: "length (workers example_fresh) = 0"
    "fst (scheduleTask True 7 example_fresh) = Inl NoWorkers"
    by (simp_all add: example_fresh_eval scheduleTask_def Let_def)
  have r: "start_resume always example_fresh =
     \<lparr>workers = [0, 1], jsThreadCount = 2, taskQueue = [], nextTaskId = 0, running = True,
      fallbackMode = True, maxQueueSize = 10000, taskTimeout = 30000, timers = {},
      settled = [], posted = [], terminating = [], exited = [], spawned = 2, warnings = [],
      emitted = [''started'']\<rparr>"
    by (simp add: example_fresh_eval start_resume_def initializeWorkers_resume_def
        start_finish_def terminateWorkers_await_def createWorker_def always_def Let_def upt_rec)
  have 4: "length (workers (start_resume always example_fresh)) = 2"
    "fst (scheduleTask True 7 (start_resume always example_fresh)) = Inr 0"
    unfolding r by (simp_all add: scheduleTask_def Let_def)
  show ?thesis using 1 2 3 4 by simp
qed

subsection \<open>The invariant is kept by every event\<close>

lemma keys_delete: "fst ` set (AList.delete k al) = fst ` set al - {k}"
  by (auto simp: AList.delete_eq)

lemma set_delete_subset: "set (AList.delete k al) \<subseteq> set al"
  by (auto simp: AList.delete_eq)

lemma update_fresh: "k \<notin> fst ` set al \<Longrightarrow> AList.update k v al = al @ [(k, v)]"
  by (induction al) auto

lemma pool_inv_fresh:
  assumes "pool_inv s"
  shows "nextTaskId s \<notin> fst ` set (taskQueue s)"
    and "nextTaskId s \<notin> timers s"
    and "nextTaskId s \<notin> task_id ` set (settled s)"
  using assms unfolding pool_inv_def by fastforce+

lemma pool_inv_entry:
  assumes "pool_inv s" and "map_of (taskQueue s) i = Some t"
  shows "t = Some i" and "i < nextTaskId s" and "i \<in> fst ` set (taskQueue s)"
    and "i \<notin> task_id ` set (settled s)"
proof -
  have m: "(i, t) \<in> set (taskQueue s)" using assms(2) by (rule map_of_SomeD)
  then show "t = Some i" "i < nextTaskId s" using assms(1) unfolding pool_inv_def by auto
  show k: "i \<in> fst ` set (taskQueue s)" using m by force
  have "\<forall>e\<in>set (settled s). task_id e \<notin> fst ` set (taskQueue s)"
    using assms(1) unfolding pool_inv_def by blast
  then show "i \<notin> task_id ` set (settled s)" using k by blast
qed

text \<open>Removing the entry of a pending task, clearing its timer and calling its callback.\<close>

lemma settle_inv:
  assumes inv: "pool_inv s" and i: "i < nextTaskId s" "i \<notin> task_id ` set (settled s)"
  shows "pool_inv (invoke i out (queue_delete i (clearTimeout i s)))"
proof -
  let ?s = "invoke i out (queue_delete i (clearTimeout i s))"
  have tq: "taskQueue ?s = AList.delete i (taskQueue s)"
    by (simp add: prim_defs)
  have tm: "timers ?s = timers s - {i}" by (simp add: prim_defs)
  have nx: "nextTaskId ?s = nextTaskId s" by (simp add: prim_defs)
  have st: "settled ?s = settled s @
      [\<lparr>task_id = i, settled_with = out, still_registered = False, timer_live = False\<rparr>]"
    by (simp add: prim_defs keys_delete)
  show ?thesis
    unfolding pool_inv_def tq tm nx st
    using inv i set_delete_subset[of i "taskQueue s"]
    unfolding pool_inv_def
    by (auto simp: keys_delete distinct_delete)
qed


lemma register_inv:
  assumes inv: "pool_inv s"
  shows "pool_inv (s\<lparr>nextTaskId := nextTaskId s + 1,
                      timers := insert (nextTaskId s) (timers s),
                      taskQueue := AList.update (nextTaskId s) (Some (nextTaskId s)) (taskQueue s)\<rparr>)"
proof -
  have u: "AList.update (nextTaskId s) (Some (nextTaskId s)) (taskQueue s) =
           taskQueue s @ [(nextTaskId s, Some (nextTaskId s))]"
    using pool_inv_fresh(1)[OF inv] by (rule update_fresh)
  show ?thesis
    unfolding pool_inv_def using inv pool_inv_fresh[OF inv]
    unfolding pool_inv_def
    by (auto simp: u less_Suc_eq)
qed


lemma scheduleTask_inv:
  assumes inv: "pool_inv s"
  shows "pool_inv (snd (scheduleTask ok p s))"
proof -
  let ?n = "nextTaskId s"
  let ?s3 = "s\<lparr>nextTaskId := ?n + 1, timers := insert ?n (timers s),
               taskQueue := AList.update ?n (Some ?n) (taskQueue s)\<rparr>"
  have r: "pool_inv ?s3" using inv by (rule register_inv)
  have f: "?n < nextTaskId ?s3" "?n \<notin> task_id ` set (settled ?s3)"
    using pool_inv_fresh(3)[OF inv] by simp_all
  have rej: "pool_inv (invoke ?n out (queue_delete ?n (clearTimeout ?n ?s3)))"
    for out :: "'b outcome"
    using r f by (rule settle_inv)
  have post: "pool_inv (?s3\<lparr>posted := posted ?s3 @ [x]\<rparr>)" for x
    using r unfolding pool_inv_def by simp
  show ?thesis
    using inv rej post
    by (simp add: scheduleTask_def Let_def)
qed


lemma warn_inv: "pool_inv s \<Longrightarrow> pool_inv (warn w s)"
  unfolding pool_inv_def warn_def by simp

lemma handleWorkerMessage_inv:
  assumes inv: "pool_inv s"
  shows "pool_inv (handleWorkerMessage m s)"
proof (cases "msg_id m")
  case None
  then show ?thesis using inv by (simp add: handleWorkerMessage_def warn_inv)
next
  case (Some i)
  show ?thesis
  proof (cases "msg_type m \<noteq> ResultKind \<or> queue_get i s = None")
    case True
    then show ?thesis using inv Some
      by (auto simp: handleWorkerMessage_def warn_inv)
  next
    case False
    then obtain t where t: "queue_get i s = Some t" and k: "msg_type m = ResultKind" by auto
    then have nn: "0 \<le> i" and mo: "map_of (taskQueue s) (nat i) = Some t"
      by (auto simp: queue_get_def split: if_splits)
    note e = pool_inv_entry[OF inv mo]
    have c: "clearTimeoutOf t s = clearTimeout (nat i) s"
      using e(1) by (simp add: clearTimeoutOf_def)
    have "pool_inv (invoke (nat i) out (queue_delete (nat i) (clearTimeout (nat i) s)))"
      for out :: "'b outcome"
      using inv e(2) e(4) by (rule settle_inv)
    then show ?thesis
      using Some k t by (simp add: handleWorkerMessage_def Let_def c split: option.splits)
  qed
qed


lemma timeoutFires_inv:
  assumes inv: "pool_inv s"
  shows "pool_inv (timeoutFires i s)"
proof (cases "i \<in> timers s")
  case False
  then show ?thesis using inv by (simp add: timeoutFires_def)
next
  case True
  then have "i \<in> fst ` set (taskQueue s)" using inv unfolding pool_inv_def by simp
  then obtain t0 where "(i, t0) \<in> set (taskQueue s)" by auto
  then obtain t where mo: "map_of (taskQueue s) i = Some t"
    using weak_map_of_SomeI by fastforce
  note e = pool_inv_entry[OF inv mo]
  have "pool_inv (invoke i out (queue_delete i (clearTimeout i s)))" for out :: "'b outcome"
    using inv e(2) e(4) by (rule settle_inv)
  then show ?thesis
    using True mo by (simp add: timeoutFires_def Let_def clearTimeout_def)
qed

lemma rejectPending_fold_exact:
  fixes s :: "('a, 'v) pool"
  assumes "\<forall>(i, t) \<in> set xs. t = Some i"
  shows "settled (fold (\<lambda>(taskId, timeoutId) s'. invoke taskId (Rejected ShuttingDown)
                 (clearTimeoutOf timeoutId s')) xs s) =
         settled s @ map (\<lambda>(i, t). \<lparr>task_id = i, settled_with = Rejected ShuttingDown,
                                   still_registered = (i \<in> fst ` set (taskQueue s)),
                                   timer_live = False\<rparr>) xs"
  using assms
proof (induction xs arbitrary: s)
  case Nil
  show ?case by simp
next
  case (Cons x xs)
  let ?f = "\<lambda>(taskId, timeoutId) s'. invoke taskId (Rejected ShuttingDown)
                 (clearTimeoutOf timeoutId (s' :: ('a, 'v) pool))"
  obtain i t where x: "x = (i, t)" by (cases x)
  have t: "t = Some i" using Cons.prems x by simp
  have fx: "?f x s = invoke i (Rejected ShuttingDown) (clearTimeout i s)"
    by (simp add: x t clearTimeoutOf_def)
  have q: "taskQueue (?f x s) = taskQueue s"
    unfolding fx by (simp add: clearTimeout_def)
  have ev: "settled (?f x s) = settled s @
      [\<lparr>task_id = i, settled_with = Rejected ShuttingDown,
        still_registered = (i \<in> fst ` set (taskQueue s)), timer_live = False\<rparr>]"
    unfolding fx by (simp add: invoke_def clearTimeout_def)
  have rest: "\<forall>(i, t) \<in> set xs. t = Some i" using Cons.prems by simp
  show ?case
    using Cons.IH[OF rest, of "?f x s"] by (simp add: q ev) (simp add: x)
qed

lemma shutdown_inv:
  assumes inv: "pool_inv s"
  shows "pool_inv (shutdown s)"
proof (cases "running s")
  case False
  then show ?thesis using inv by (simp add: shutdown_def shutdown_begin_def shutdown_resume_def)
next
  case True
  let ?s1 = "s\<lparr>running := False\<rparr>"
  have b: "\<forall>(i, t) \<in> set (taskQueue s). t = Some i \<and> i < nextTaskId s"
    using inv unfolding pool_inv_def by blast
  then have b': "\<forall>(i, t) \<in> set (taskQueue ?s1). t = Some i" by auto
  have st: "settled (rejectPending ?s1) =
         settled s @ map (\<lambda>(i, t). \<lparr>task_id = i, settled_with = Rejected ShuttingDown,
                                   still_registered = (i \<in> fst ` set (taskQueue s)),
                                   timer_live = False\<rparr>) (taskQueue s)"
    unfolding rejectPending_def using rejectPending_fold_exact[OF b', of ?s1] by simp
  have ks: "{t. \<exists>i. (i, Some t) \<in> set (taskQueue s)} = fst ` set (taskQueue s)"
    using b by force
  have tm: "timers (rejectPending ?s1) = {}"
    using inv unfolding pool_inv_def by (simp add: rejectPending_effect(2) ks)
  have ids: "map task_id (map (\<lambda>(i, t). \<lparr>task_id = i, settled_with = Rejected ShuttingDown :: 'b outcome,
                                   still_registered = (i \<in> fst ` set (taskQueue s)),
                                   timer_live = False\<rparr>) (taskQueue s)) = map fst (taskQueue s)"
    by (simp add: comp_def split_beta)
  have sh: "taskQueue (shutdown s) = []" "timers (shutdown s) = {}"
    "nextTaskId (shutdown s) = nextTaskId s"
    "settled (shutdown s) = settled (rejectPending ?s1)"
    using True tm by (simp_all add: shutdown_def shutdown_begin_def shutdown_resume_def Let_def terminate_defs)
  have d: "distinct (map task_id (settled (rejectPending ?s1)))"
    unfolding st using inv unfolding pool_inv_def
    by (simp del: map_map add: ids) blast
  have ev: "\<forall>e \<in> set (settled (rejectPending ?s1)).
        task_id e < nextTaskId s \<and> \<not> timer_live e \<and>
        (still_registered e \<longrightarrow> settled_with e = Rejected ShuttingDown)"
    unfolding st using inv b unfolding pool_inv_def by auto
  show ?thesis
    unfolding pool_inv_def sh using d ev by simp
qed

lemma pool_inv_cong:
  assumes "taskQueue s' = taskQueue s" "nextTaskId s' = nextTaskId s"
    "timers s' = timers s" "settled s' = settled s"
  shows "pool_inv s' = pool_inv s"
  unfolding pool_inv_def assms by (rule refl)

lemma shutdown_resume_inv: "pool_inv (shutdown_resume s) = pool_inv s"
  by (rule pool_inv_cong) (simp_all add: shutdown_resume_frame)

lemma shutdown_begin_inv:
  assumes "pool_inv s"
  shows "pool_inv (shutdown_begin s)"
proof -
  have "pool_inv (shutdown_begin s) = pool_inv (shutdown s)"
    by (rule pool_inv_cong) (simp_all add: shutdown_begin_frame)
  then show ?thesis using shutdown_inv[OF assms] by simp
qed

lemma step_inv: "pool_inv s \<Longrightarrow> pool_inv (step a s)"
proof (cases a)
  case (Submit ok p)
  assume "pool_inv s"
  then show ?thesis using Submit by (simp add: scheduleTask_inv)
next
  case (Message m)
  assume "pool_inv s"
  then show ?thesis using Message by (simp add: handleWorkerMessage_inv)
next
  case (TimerFires i)
  assume "pool_inv s"
  then show ?thesis using TimerFires by (simp add: timeoutFires_inv)
next
  case Shutdown
  assume "pool_inv s"
  then show ?thesis using Shutdown by (simp add: shutdown_inv)
next
  case ShutdownBegin
  assume "pool_inv s"
  then show ?thesis using ShutdownBegin by (simp add: shutdown_begin_inv)
next
  case ShutdownResume
  assume "pool_inv s"
  then show ?thesis using ShutdownResume by (simp add: shutdown_resume_inv)
next
  case StartBegin
  assume "pool_inv s"
  then show ?thesis using StartBegin
    by (simp add: start_begin_def terminateWorkers_begin_def pool_inv_def)
next
  case (StartResume f)
  assume "pool_inv s"
  moreover have "pool_inv (start_resume f s) = pool_inv s"
    by (rule pool_inv_cong)
       (simp_all add: start_resume_def initializeWorkers_resume_def start_finish_def Let_def fold_createWorker_frame
          terminateWorkers_await_def)
  ultimately show ?thesis using StartResume by simp
next
  case (WorkerExit w)
  assume "pool_inv s"
  then show ?thesis using WorkerExit by (simp add: workerExit_def pool_inv_def)
next
  case (Respawn ok slot)
  assume "pool_inv s"
  then show ?thesis using Respawn by (simp add: createWorker_def pool_inv_def)
qed

lemma run_inv: "pool_inv s \<Longrightarrow> pool_inv (run acts s)"
  unfolding run_def by (induction acts arbitrary: s) (simp_all add: step_inv)

lemma constructor_inv: "pool_inv (constructor hw cppLoads options)"
  by (simp add: constructor_def start_begin_def terminateWorkers_begin_def pool_inv_def)

lemma reachable_inv: "pool_inv (run acts (constructor hw cppLoads options))"
  by (rule run_inv[OF constructor_inv])


subsection \<open>At most one resolution per task\<close>

text \<open>The log of callback calls only grows.\<close>

lemma step_settled_grows: "\<exists>evs. settled (step a s) = settled s @ evs"
proof (cases a)
  case (Submit ok p)
  then show ?thesis by (simp add: scheduleTask_def Let_def prim_defs)
next
  case (Message m)
  then show ?thesis
    by (simp add: handleWorkerMessage_def Let_def prim_defs split: option.splits)
next
  case (TimerFires i)
  then show ?thesis by (simp add: timeoutFires_def Let_def prim_defs split: option.splits)
next
  case Shutdown
  have "\<exists>evs. settled (rejectPending (s\<lparr>running := False\<rparr>)) = settled s @ evs"
    using rejectPending_effect(1)[of "s\<lparr>running := False\<rparr>"] by auto
  then show ?thesis using Shutdown by (simp add: shutdown_def shutdown_begin_def shutdown_resume_def Let_def terminate_defs)
next
  case ShutdownBegin
  have "\<exists>evs. settled (rejectPending (s\<lparr>running := False\<rparr>)) = settled s @ evs"
    using rejectPending_effect(1)[of "s\<lparr>running := False\<rparr>"] by auto
  then show ?thesis using ShutdownBegin
    by (simp add: shutdown_begin_def Let_def terminate_defs)
next
  case ShutdownResume
  then show ?thesis by (simp add: shutdown_resume_frame)
next
  case StartBegin
  then show ?thesis by (simp add: start_begin_def terminateWorkers_begin_def)
next
  case (StartResume f)
  then show ?thesis
    by (simp add: start_resume_def initializeWorkers_resume_def start_finish_def Let_def fold_createWorker_frame terminateWorkers_await_def)
next
  case (WorkerExit w)
  then show ?thesis by (simp add: workerExit_def)
next
  case (Respawn ok slot)
  then show ?thesis by (simp add: createWorker_def)
qed

lemma run_settled_grows: "\<exists>evs. settled (run acts s) = settled s @ evs"
  unfolding run_def
proof (induction acts arbitrary: s)
  case Nil
  show ?case by simp
next
  case (Cons a acts)
  obtain e1 where e1: "settled (step a s) = settled s @ e1"
    using step_settled_grows by blast
  obtain e2 where e2: "settled (fold step acts (step a s)) = settled (step a s) @ e2"
    using Cons.IH by blast
  show ?case using e1 e2 by simp
qed

lemma run_append: "run (xs @ ys) s = run ys (run xs s)"
  by (simp add: run_def)

lemma message_dropped:
  assumes "msg_id m = Some i" and "queue_get i s = None"
  shows "handleWorkerMessage m s =
           warn (if msg_type m = ResultKind then UnknownTaskId i else InvalidMessage) s"
  using assms by (simp add: handleWorkerMessage_def)

lemma queue_get_unregistered:
  "i \<notin> fst ` set (taskQueue s) \<Longrightarrow> queue_get (int i) s = None"
  by (simp add: queue_get_def map_of_eq_None_iff)

text \<open>
  C1 (amended). In every state \<open>s\<close> the pool can reach from its construction, and every
  state \<open>s'\<close> it can reach from there: no task has had a callback called twice; a task
  whose callback was called by \<open>s\<close> still has that one call and no registry entry in \<open>s'\<close>;
  its entry was removed before the call, except for the rejection made by \<^verbatim>\<open>shutdown\<close>,
  which rejects every entry first and empties the registry right after, in the same
  uninterrupted run; and a worker message for such a task, or for any id without an
  entry, or without a numeric id, only logs a warning: nothing is resolved or rejected,
  and the handler returns normally.
\<close>

theorem resolution_at_most_once:
  assumes "s = run acts (constructor hw cppLoads options)" and "s' = run later s"
  shows "distinct (map task_id (settled s')) \<and>
         (\<forall>e \<in> set (settled s).
            e \<in> set (settled s') \<and>
            task_id e \<notin> fst ` set (taskQueue s') \<and>
            (still_registered e \<longrightarrow> settled_with e = Rejected ShuttingDown) \<and>
            (\<forall>m. msg_id m = Some (int (task_id e)) \<longrightarrow>
               handleWorkerMessage m s' =
                 warn (if msg_type m = ResultKind then UnknownTaskId (int (task_id e))
                       else InvalidMessage) s')) \<and>
         (\<forall>m i. msg_id m = Some i \<and> queue_get i s' = None \<longrightarrow>
            handleWorkerMessage m s' =
              warn (if msg_type m = ResultKind then UnknownTaskId i else InvalidMessage) s') \<and>
         (\<forall>m. msg_id m = None \<longrightarrow> handleWorkerMessage m s' = warn InvalidMessage s')"
proof -
  have s': "s' = run (acts @ later) (constructor hw cppLoads options)"
    using assms by (simp add: run_append)
  have inv: "pool_inv s'" unfolding s' by (rule reachable_inv)
  obtain evs where g: "settled s' = settled s @ evs"
    using run_settled_grows assms(2) by blast
  have d: "distinct (map task_id (settled s'))" using inv unfolding pool_inv_def by blast
  have e: "task_id e \<notin> fst ` set (taskQueue s') \<and>
           (still_registered e \<longrightarrow> settled_with e = Rejected ShuttingDown)"
    if "e \<in> set (settled s')" for e
    using inv that unfolding pool_inv_def by blast
  have old: "e \<in> set (settled s')" if "e \<in> set (settled s)" for e
    using that g by simp
  have dropped: "handleWorkerMessage m s' =
                 warn (if msg_type m = ResultKind then UnknownTaskId (int (task_id e))
                       else InvalidMessage) s'"
    if "e \<in> set (settled s)" "msg_id m = Some (int (task_id e))" for e m
    using message_dropped[OF that(2) queue_get_unregistered] e[OF old[OF that(1)]] by blast
  have none: "handleWorkerMessage m s' = warn InvalidMessage s'" if "msg_id m = None" for m
    using that by (simp add: handleWorkerMessage_def)
  show ?thesis
    using d e old dropped none message_dropped by blast
qed


lemmas run_eval_defs = run_def example_defs Let_def scheduleTask_def handleWorkerMessage_def
  resultMessage_def queue_get_def prim_defs truthy_error_def timeoutFires_def

lemma example_history_eval:
  "run example_history (constructor 2 False (example_options None (Some 1))) =
     \<lparr>workers = [0], jsThreadCount = 1, taskQueue = [], nextTaskId = 1,
      running = True, fallbackMode = True, maxQueueSize = 1, taskTimeout = 30000,
      timers = {},
      settled = [\<lparr>task_id = 0, settled_with = Resolved 42, still_registered = False,
                  timer_live = False\<rparr>],
      posted = [(0, 0, 7)], terminating = [], exited = [], spawned = 1,
      warnings = [], emitted = [''started'']\<rparr>"
  by (simp add: example_history_def run_eval_defs)

lemma example_later_eval:
  "settled (run example_later
      (run example_history (constructor 2 False (example_options None (Some 1))))) =
     [\<lparr>task_id = 0, settled_with = Resolved 42, still_registered = False,
       timer_live = False\<rparr>]"
  unfolding example_history_eval by (simp add: example_later_def run_eval_defs)

theorem resolution_at_most_once_witness:
  "settled (run example_later
      (run example_history (constructor 2 False (example_options None (Some 1))))) =
     [\<lparr>task_id = 0, settled_with = Resolved 42, still_registered = False,
       timer_live = False\<rparr>] \<and>
   distinct (map task_id (settled (run example_later
      (run example_history (constructor 2 False (example_options None (Some 1))))))) \<and>
   handleWorkerMessage (resultMessage 0 44)
     (run example_later
        (run example_history (constructor 2 False (example_options None (Some 1))))) =
   warn (UnknownTaskId 0)
     (run example_later
        (run example_history (constructor 2 False (example_options None (Some 1)))))"
proof -
  let ?c = "constructor 2 False (example_options None (Some 1)) :: (nat, nat) pool"
  let ?s = "run example_history ?c"
  let ?s' = "run example_later ?s"
  let ?e = "\<lparr>task_id = 0, settled_with = Resolved (42 :: nat), still_registered = False,
             timer_live = False\<rparr>"
  note inst = resolution_at_most_once[of ?s example_history 2 False
      "example_options None (Some 1)" ?s' example_later, OF refl refl]
  have m: "?e \<in> set (settled ?s)" by (simp add: example_history_eval)
  have i: "msg_id (resultMessage 0 (44 :: nat)) = Some (int (task_id ?e))"
    "msg_type (resultMessage 0 (44 :: nat)) = ResultKind"
    by (simp_all add: resultMessage_def)
  from inst have d: "distinct (map task_id (settled ?s'))" by blast
  from inst m have
    "\<forall>m. msg_id m = Some (int (task_id ?e)) \<longrightarrow>
       handleWorkerMessage m ?s' =
         warn (if msg_type m = ResultKind then UnknownTaskId (int (task_id ?e))
               else InvalidMessage) ?s'"
    by blast
  with i have h: "handleWorkerMessage (resultMessage 0 44) ?s' = warn (UnknownTaskId 0) ?s'"
    by simp
  show ?thesis using d h example_later_eval by simp
qed

text \<open>A task pending at \<^verbatim>\<open>shutdown\<close> has its \<^verbatim>\<open>reject\<close> callback called while its entry
  is still in the registry.\<close>

theorem resolution_at_most_once_counterexample:
  "settled (run [StartResume always, Submit True 7, Shutdown]
      (constructor 2 False (example_options None (Some 1)) :: (nat, nat) pool)) =
     [\<lparr>task_id = 0, settled_with = Rejected ShuttingDown, still_registered = True,
       timer_live = False\<rparr>]"
  by (simp add: run_eval_defs shutdown_def shutdown_begin_def shutdown_resume_def rejectPending_def)


subsection \<open>Registry entries and timers\<close>

lemma example_wide_eval:
  "example_wide =
     \<lparr>workers = [0, 1], jsThreadCount = 2, taskQueue = [], nextTaskId = 0, running = True,
      fallbackMode = True, maxQueueSize = 10000, taskTimeout = 30000, timers = {},
      settled = [], posted = [], terminating = [], exited = [], spawned = 2, warnings = [],
      emitted = [''started'']\<rparr>"
  by (simp add: example_wide_def example_defs Let_def upt_rec)


lemma example_two_eval:
  "example_two =
     \<lparr>workers = [0, 1], jsThreadCount = 2, taskQueue = [(0, Some 0), (1, Some 1)],
      nextTaskId = 2, running = True, fallbackMode = True, maxQueueSize = 10000,
      taskTimeout = 30000, timers = {0, 1}, settled = [],
      posted = [(0, 0, 7), (1, 1, 8)], terminating = [], exited = [], spawned = 2,
      warnings = [], emitted = [''started'']\<rparr>"
  by (simp add: example_two_def example_wide_eval run_eval_defs) auto

lemma example_two_shutdown:
  "settled (shutdown example_two) =
     [\<lparr>task_id = 0, settled_with = Rejected ShuttingDown, still_registered = True,
       timer_live = False\<rparr>,
      \<lparr>task_id = 1, settled_with = Rejected ShuttingDown, still_registered = True,
       timer_live = False\<rparr>]"
  by (simp add: example_two_eval shutdown_def shutdown_begin_def shutdown_resume_def rejectPending_def Let_def prim_defs
      terminate_defs)

text \<open>\<^verbatim>\<open>shutdown\<close> rejects both pending tasks while their entries are still in the
  registry; the registry is emptied afterwards.\<close>

theorem registry_matches_timers_counterexample:
  "map task_id (settled (shutdown example_two)) = [0, 1] \<and>
   map still_registered (settled (shutdown example_two)) = [True, True] \<and>
   map timer_live (settled (shutdown example_two)) = [False, False]"
  by (simp add: example_two_shutdown)

lemma scheduleTask_error_frame:
  assumes inv: "pool_inv s" and err: "fst (scheduleTask ok p s) = Inl e"
  shows "taskQueue (snd (scheduleTask ok p s)) = taskQueue s"
    and "timers (snd (scheduleTask ok p s)) = timers s"
proof -
  let ?n = "nextTaskId s"
  have q: "AList.delete ?n (AList.update ?n (Some ?n) (taskQueue s)) = taskQueue s"
    using pool_inv_fresh(1)[OF inv] by (simp add: delete_update_same)
  have t: "insert ?n (timers s) - {?n} = timers s"
    using pool_inv_fresh(2)[OF inv] by auto
  show "taskQueue (snd (scheduleTask ok p s)) = taskQueue s"
    using err q by (simp add: scheduleTask_def Let_def prim_defs split: if_splits)
  show "timers (snd (scheduleTask ok p s)) = timers s"
    using err t by (simp add: scheduleTask_def Let_def prim_defs split: if_splits)
qed

text \<open>
  C9 (amended). In every state the pool can reach from its construction: the live timers
  are exactly the timers of the registered task ids, each entry holding the timer of its
  own task; a task whose callback was called has neither an entry nor a live timer; at
  the moment of that call its timer was not live, and its entry was gone unless the call
  was the rejection made by \<^verbatim>\<open>shutdown\<close> (which cancels the timer, rejects, and empties
  the registry only after the last rejection); a submission that is rejected at once, on
  whichever error path, leaves registry and timers as they were; and after a
  \<^verbatim>\<open>shutdown\<close> no entry and no timer remains.
\<close>

theorem registry_matches_timers:
  assumes "s = run acts (constructor hw cppLoads options)"
  shows "timers s = fst ` set (taskQueue s) \<and>
         (\<forall>(i, t) \<in> set (taskQueue s). t = Some i) \<and>
         (\<forall>e \<in> set (settled s).
            task_id e \<notin> fst ` set (taskQueue s) \<and> task_id e \<notin> timers s \<and>
            \<not> timer_live e \<and>
            (still_registered e \<longrightarrow> settled_with e = Rejected ShuttingDown)) \<and>
         (\<forall>ok p e. fst (scheduleTask ok p s) = Inl e \<longrightarrow>
            taskQueue (snd (scheduleTask ok p s)) = taskQueue s \<and>
            timers (snd (scheduleTask ok p s)) = timers s) \<and>
         (running s \<longrightarrow> taskQueue (shutdown s) = [] \<and> timers (shutdown s) = {})"
proof -
  have inv: "pool_inv s" unfolding assms by (rule reachable_inv)
  have a: "timers s = fst ` set (taskQueue s)" using inv unfolding pool_inv_def by blast
  have b: "\<forall>(i, t) \<in> set (taskQueue s). t = Some i"
    using inv unfolding pool_inv_def by fast
  have c: "\<forall>e \<in> set (settled s).
            task_id e \<notin> fst ` set (taskQueue s) \<and> task_id e \<notin> timers s \<and>
            \<not> timer_live e \<and>
            (still_registered e \<longrightarrow> settled_with e = Rejected ShuttingDown)"
    using inv unfolding pool_inv_def by blast
  have d: "\<forall>ok p e. fst (scheduleTask ok p s) = Inl e \<longrightarrow>
            taskQueue (snd (scheduleTask ok p s)) = taskQueue s \<and>
            timers (snd (scheduleTask ok p s)) = timers s"
    using scheduleTask_error_frame[OF inv] by blast
  have i2: "pool_inv (shutdown s)" using inv by (rule shutdown_inv)
  have "taskQueue (shutdown s) = []" if "running s"
    using that by (simp add: shutdown_def shutdown_begin_def shutdown_resume_def Let_def terminate_defs)
  then have e: "running s \<longrightarrow> taskQueue (shutdown s) = [] \<and> timers (shutdown s) = {}"
    using i2 unfolding pool_inv_def by auto
  show ?thesis using a b c d e by blast
qed

theorem registry_matches_timers_witness:
  "timers example_two = fst ` set (taskQueue example_two) \<and>
   timers example_two = {0, 1} \<and>
   taskQueue (snd (scheduleTask False 9 example_two)) = taskQueue example_two \<and>
   timers (snd (scheduleTask False 9 example_two)) = timers example_two \<and>
   taskQueue (shutdown example_two) = [] \<and>
   timers (shutdown example_two) = {}"
proof -
  have r: "example_two = run [StartResume always, Submit True 7, Submit True 8]
             (constructor 4 False (example_options None None))"
    by (simp add: example_two_def example_wide_def run_def)
  note inst = registry_matches_timers[OF r]
  have run: "running example_two" by (simp add: example_two_eval)
  have err: "fst (scheduleTask False 9 example_two) = Inl PostMessageFailed"
    by (simp add: example_two_eval scheduleTask_def Let_def prim_defs)
  have tm: "timers example_two = {0, 1}" by (simp add: example_two_eval)
  from inst have 1: "timers example_two = fst ` set (taskQueue example_two)" by blast
  from inst err have 2: "taskQueue (snd (scheduleTask False 9 example_two)) = taskQueue example_two
      \<and> timers (snd (scheduleTask False 9 example_two)) = timers example_two"
    by blast
  from inst run have 3: "taskQueue (shutdown example_two) = [] \<and> timers (shutdown example_two) = {}"
    by blast
  show ?thesis using 1 2 3 tm by blast
qed

section \<open>Properties of the batch operations\<close>

subsection \<open>Auxiliary facts\<close>

lemma ceiling_nat_div:
  assumes "0 < w"
  shows "nat \<lceil>real n / real w\<rceil> = (n + w - 1) div w"
proof -
  let ?z = "(n + w - 1) div w"
  have up: "n \<le> ?z * w"
  proof -
    have "n + w - 1 = ?z * w + (n + w - 1) mod w" by simp
    moreover have "(n + w - 1) mod w < w" using assms by simp
    ultimately show ?thesis using assms by linarith
  qed
  have lo: "?z * w < n + w"
  proof -
    have "?z * w \<le> n + w - 1" by simp
    then show ?thesis using assms by linarith
  qed
  have "\<lceil>real n / real w\<rceil> = int ?z"
  proof (rule ceiling_unique)
    have "real ?z * real w < real n + real w"
      using lo of_nat_less_iff[where 'a = real, of "?z * w" "n + w"] by simp
    then have "(real ?z - 1) * real w < real n" by (simp add: algebra_simps)
    then show "of_int (int ?z) - 1 < real n / real w"
      using assms by (simp add: pos_less_divide_eq)
    have "real n \<le> real ?z * real w"
      using up of_nat_le_iff[where 'a = real, of n "?z * w"] by simp
    then show "real n / real w \<le> of_int (int ?z)"
      using assms by (simp add: pos_divide_le_eq)
  qed
  then show ?thesis by simp
qed


lemma batchSizeFor_div:
  "batchSizeFor n w = (if w = 0 then max 1 n else max 1 ((n + w - 1) div w))"
  by (simp add: batchSizeFor_def ceiling_nat_div)

lemma example_bezier_pool_eval:
  "example_bezier_pool =
     \<lparr>workers = [0, 1], jsThreadCount = 2, taskQueue = [], nextTaskId = 0, running = True,
      fallbackMode = True, maxQueueSize = 10000, taskTimeout = 30000, timers = {},
      settled = [], posted = [], terminating = [], exited = [], spawned = 2, warnings = [],
      emitted = [''started'']\<rparr>"
  by (simp add: example_bezier_pool_def example_defs Let_def upt_rec)

lemma example_native_pool_eval:
  "example_native_pool =
     \<lparr>workers = [0, 1], jsThreadCount = 2, taskQueue = [], nextTaskId = 0, running = True,
      fallbackMode = False, maxQueueSize = 10000, taskTimeout = 30000, timers = {},
      settled = [], posted = [], terminating = [], exited = [], spawned = 2, warnings = [],
      emitted = [''started'']\<rparr>"
  by (simp add: example_native_pool_def example_defs Let_def upt_rec)

text \<open>Empty inputs do not give the empty result on a pool that is not running: the
  running check comes first.\<close>

theorem batch_validation_counterexample:
  "generateBezierPaths None 0 always [] [] example_bezier_options (shutdown example_bezier_pool)
     = (Done (Inl NotRunning), shutdown example_bezier_pool)"
  by (simp add: generateBezierPaths_def shutdown_not_running)

text \<open>
  C6 (amended). \<^verbatim>\<open>generateBezierPaths\<close> and \<^verbatim>\<open>simulatePhysicsMovements\<close> with arrays
  of different lengths fail (with the length error on a running pool, with the 'not
  running' error otherwise) before any backend is invoked or any task submitted: the
  outcome does not depend on the native primitive and the pool is unchanged. With both
  arrays empty, on a running pool, they return the empty array and leave the pool
  unchanged. On a pool that is not running they fail with the 'not running' error,
  whatever the inputs, and leave the pool unchanged.
\<close>

theorem batch_validation:
  "(length starts \<noteq> length ends \<longrightarrow>
      generateBezierPaths native draw postOk starts ends options s =
        (Done (Inl (if running s then LengthMismatch else NotRunning)), s) \<and>
      simulatePhysicsMovements interpolate nativePhysics draw starts ends physicsOptions s' =
        (Inl (if running s' then LengthMismatch else NotRunning), s')) \<and>
   (running s \<longrightarrow>
      generateBezierPaths native draw postOk [] [] options s = (Done (Inr []), s)) \<and>
   (running s' \<longrightarrow>
      simulatePhysicsMovements interpolate nativePhysics draw [] [] physicsOptions s' =
        (Inr [], s')) \<and>
   (\<not> running s \<longrightarrow>
      generateBezierPaths native draw postOk starts ends options s =
        (Done (Inl NotRunning), s)) \<and>
   (\<not> running s' \<longrightarrow>
      simulatePhysicsMovements interpolate nativePhysics draw starts ends physicsOptions s' =
        (Inl NotRunning, s'))"
  by (simp add: generateBezierPaths_def simulatePhysicsMovements_def)

theorem batch_validation_witness:
  "generateBezierPaths (Some failing_native) 0 always [pt 0 0, pt 1 1] [pt 5 5]
     example_bezier_options example_native_pool = (Done (Inl LengthMismatch), example_native_pool) \<and>
   simulatePhysicsMovements example_interpolate None 0 [pt 0 0, pt 1 1] [pt 5 5]
     example_physics_options example_pool = (Inl LengthMismatch, example_pool) \<and>
   generateBezierPaths (Some failing_native) 0 always [] []
     example_bezier_options example_native_pool = (Done (Inr []), example_native_pool) \<and>
   simulatePhysicsMovements example_interpolate None 0 [] [] example_physics_options example_pool
     = (Inr [], example_pool) \<and>
   generateBezierPaths (Some failing_native) 0 always [pt 0 0] [pt 5 5]
     example_bezier_options (shutdown example_native_pool)
     = (Done (Inl NotRunning), shutdown example_native_pool) \<and>
   simulatePhysicsMovements example_interpolate None 0 [pt 0 0] [pt 5 5]
     example_physics_options (shutdown example_pool) = (Inl NotRunning, shutdown example_pool)"
proof -
  have r: "running example_native_pool" "running example_pool"
    by (simp_all add: example_native_pool_eval example_pool_eval)
  have n: "\<not> running (shutdown example_native_pool)" "\<not> running (shutdown example_pool)"
    by (rule shutdown_not_running)+
  have l: "length [pt 0 0, pt 1 1] \<noteq> length [pt 5 5]" by simp
  note running_pool =
    batch_validation[of "[pt 0 0, pt 1 1]" "[pt 5 5]" "Some failing_native" 0 always
      example_bezier_options example_native_pool example_interpolate None
      example_physics_options example_pool]
  note stopped_pool =
    batch_validation[of "[pt 0 0]" "[pt 5 5]" "Some failing_native" 0 always
      example_bezier_options "shutdown example_native_pool" example_interpolate None
      example_physics_options "shutdown example_pool"]
  show ?thesis
    using r n l running_pool stopped_pool by simp
qed

lemma scheduleTask_warnings [simp]:
  "warnings (snd (scheduleTask ok p s)) = warnings s"
  by (simp add: scheduleTask_def Let_def prim_defs)

lemma scheduleAll_warnings [simp]:
  "warnings (snd (scheduleAll postOk bs s)) = warnings s"
proof (induction bs arbitrary: s)
  case Nil
  then show ?case by simp
next
  case (Cons b bs)
  show ?case
    using Cons.IH[of "snd (scheduleTask (postOk (nextTaskId s)) b s)"]
      scheduleTask_warnings[of "postOk (nextTaskId s)" b s]
    by (simp add: split_beta Let_def)
qed





subsection \<open>Chunking\<close>

declare makeBatches.simps [simp del]

lemma chunk_count_step:
  assumes "0 < b" "m * b < (n::nat)"
  shows "m < (n + b - 1) div b"
proof -
  have "m * b + b \<le> n + b - 1" using assms by arith
  then have "(m + 1) * b \<le> n + b - 1" by (simp add: algebra_simps)
  then have "m + 1 \<le> (n + b - 1) div b"
    using assms(1) by (simp add: less_eq_div_iff_mult_less_eq)
  then show ?thesis by simp
qed

lemma chunk_count_stop:
  assumes "0 < b" "\<not> m * b < (n::nat)"
  shows "(n + b - 1) div b \<le> m"
proof -
  have "n + b - 1 < (m + 1) * b" using assms by (simp add: algebra_simps)
  then have "(n + b - 1) div b < m + 1"
    using assms(1) by (simp add: div_less_iff_less_mult)
  then show ?thesis by simp
qed

lemma makeBatches_from:
  assumes "0 < b"
  shows "makeBatches starts ends options b (m * b) =
           map (chunkAt starts ends options b) [m..<(length starts + b - 1) div b]"
proof (induction "length starts - m * b" arbitrary: m rule: less_induct)
  case less
  show ?case
  proof (cases "m * b < length starts")
    case True
    have lt: "m < (length starts + b - 1) div b"
      using assms True by (rule chunk_count_step)
    have "length starts - (m + 1) * b < length starts - m * b"
      using True assms by (simp add: algebra_simps)
    from less[OF this] have ih:
      "makeBatches starts ends options b (m * b + b) =
         map (chunkAt starts ends options b) [Suc m..<(length starts + b - 1) div b]"
      by (simp add: algebra_simps)
    show ?thesis
      using True assms lt ih
      by (subst makeBatches.simps) (simp add: upt_conv_Cons chunkAt_def)
  next
    case False
    have "(length starts + b - 1) div b \<le> m"
      using assms False by (rule chunk_count_stop)
    then show ?thesis
      using False by (subst makeBatches.simps) simp
  qed
qed

lemma makeBatches_chunks:
  assumes "0 < b"
  shows "makeBatches starts ends options b 0 =
           map (chunkAt starts ends options b) [0..<(length starts + b - 1) div b]"
  using makeBatches_from[OF assms, of starts ends options 0] by simp


lemma slice_length: "length (slice xs i (i + b)) = min b (length xs - i)"
  by (simp add: slice_def)

lemma slice_nth: "j < min b (length xs - i) \<Longrightarrow> slice xs i (i + b) ! j = xs ! (i + j)"
proof -
  assume a: "j < min b (length xs - i)"
  then have "j < length xs - i" by simp
  then have "i \<le> length xs" by arith
  then show ?thesis using a by (simp add: slice_def)
qed

lemma chunk_range: "min b (n - a) + a = min (a + b) (max (n::nat) a)"
  by arith

lemma chunk_range': "[a..<min (a + b) (max (n::nat) a)] = [a..<min (a + b) n]"
  by (cases "a \<le> n") (simp_all add: max_def)


lemma processBatch_chunk:
  assumes "length ends = length starts"
  shows "processBatch curve (\<lambda>j. draws (k * b + j)) (chunkAt starts ends options b k) =
         map (\<lambda>i. generateBezierPath curve (draws i) (starts ! i) (ends ! i) options)
           [k * b..<min (k * b + b) (length starts)]"
proof -
  let ?h = "\<lambda>i. generateBezierPath curve (draws i) (starts ! i) (ends ! i) options"
  let ?len = "min b (length starts - k * b)"
  have "processBatch curve (\<lambda>j. draws (k * b + j)) (chunkAt starts ends options b k) =
        map (\<lambda>j. ?h (k * b + j)) [0..<?len]"
    unfolding processBatch_def chunkAt_def
    by (rule map_cong) (auto simp: slice_length slice_nth assms)
  also have "\<dots> = map ?h (map (\<lambda>j. j + k * b) [0..<?len])"
    by (simp add: comp_def add.commute)
  also have "map (\<lambda>j. j + k * b) [0..<?len] = [k * b..<?len + k * b]"
    by (rule map_add_upt)
  finally show ?thesis
    by (simp only: chunk_range chunk_range')
qed


lemma upt_join: "a \<le> c \<Longrightarrow> [0..<a] @ [a..<c] = [0..<c]"
proof -
  assume "a \<le> c"
  then obtain d where d: "c = a + d" using le_Suc_ex by blast
  have "[0..<a + d] = [0..<a] @ [a..<a + d]"
    by (rule upt_add_eq_append) simp
  then show ?thesis unfolding d by simp
qed

lemma concat_ranges:
  assumes "0 < b"
  shows "concat (map (\<lambda>k. map h [k * b..<min (k * b + b) n]) [0..<m]) = map h [0..<min (m * b) n]"
proof (induction m)
  case 0
  show ?case by simp
next
  case (Suc m)
  have j: "[0..<min (m * b) n] @ [m * b..<min (m * b + b) n] = [0..<min (m * b + b) n]"
  proof (cases "m * b \<le> n")
    case True
    then have "min (m * b) n = m * b" "m * b \<le> min (m * b + b) n" by simp_all
    then show ?thesis by (simp only: upt_join)
  next
    case False
    then show ?thesis by (simp add: min_def)
  qed
  have "concat (map (\<lambda>k. map h [k * b..<min (k * b + b) n]) [0..<Suc m]) =
        map h [0..<min (m * b) n] @ map h [m * b..<min (m * b + b) n]"
    using Suc by simp
  also have "\<dots> = map h ([0..<min (m * b) n] @ [m * b..<min (m * b + b) n])"
    by simp
  also have "\<dots> = map h [0..<min (Suc m * b) n]"
    by (simp only: j) (simp add: add.commute)
  finally show ?case .
qed



lemma chunks_cover:
  assumes "0 < b"
  shows "min (((n::nat) + b - 1) div b * b) n = n"
proof -
  have "\<not> (n + b - 1) div b * b < n"
    using chunk_count_step[OF assms, of "(n + b - 1) div b" n] by auto
  then show ?thesis by simp
qed

lemma chunked_equals_sequential:
  assumes "0 < b" and "length ends = length starts"
  shows "concat (map (\<lambda>k. processBatch curve (\<lambda>j. draws (k * b + j))
                         (chunkAt starts ends options b k))
                   [0..<(length starts + b - 1) div b]) =
         sequentialPaths curve draws starts ends options"
  unfolding sequentialPaths_def processBatch_chunk[OF assms(2)] concat_ranges[OF assms(1)]
    chunks_cover[OF assms(1)]
  by (rule refl)

lemma sequentialPaths_seeded:
  assumes "seed options = Some sd"
  shows "sequentialPaths curve draws starts ends options =
         map (\<lambda>i. curve sd (starts ! i) (ends ! i) options) [0..<length starts]"
  by (simp add: sequentialPaths_def generateBezierPath_def assms)


lemma slice_as_map:
  "slice xs (k * b) (k * b + b) = map (nth xs) [k * b..<min (k * b + b) (length xs)]"
proof -
  let ?len = "min b (length xs - k * b)"
  have "slice xs (k * b) (k * b + b) = map (\<lambda>j. xs ! (k * b + j)) [0..<?len]"
    by (rule nth_equalityI) (simp_all add: slice_length slice_nth)
  also have "\<dots> = map (nth xs) (map (\<lambda>j. j + k * b) [0..<?len])"
    by (simp add: comp_def add.commute)
  also have "map (\<lambda>j. j + k * b) [0..<?len] = [k * b..<?len + k * b]"
    by (rule map_add_upt)
  finally show ?thesis
    by (simp only: chunk_range chunk_range')
qed

lemma chunks_concat:
  assumes "0 < b"
  shows "concat (map (\<lambda>k. slice xs (k * b) (k * b + b)) [0..<(length xs + b - 1) div b]) = xs"
  unfolding slice_as_map concat_ranges[OF assms] chunks_cover[OF assms]
  by (rule map_nth)

lemma chunk_full:
  assumes "0 < b" and "Suc k < (length xs + b - 1) div b"
  shows "length (slice xs (k * b) (k * b + b)) = b"
proof -
  have "Suc k * b < length xs"
    using chunk_count_stop[OF assms(1), of "Suc k" "length xs"] assms(2) by auto
  then show ?thesis by (simp add: slice_length)
qed

lemma chunk_nonempty:
  assumes "0 < b" and "k < (length xs + b - 1) div b"
  shows "0 < length (slice xs (k * b) (k * b + b))"
    and "length (slice xs (k * b) (k * b + b)) \<le> b"
proof -
  have "k * b < length xs"
    using chunk_count_stop[OF assms(1), of k "length xs"] assms(2) by auto
  then show "0 < length (slice xs (k * b) (k * b + b))"
    using assms(1) by (simp add: slice_length)
  show "length (slice xs (k * b) (k * b + b)) \<le> b" by (simp add: slice_length)
qed

subsection \<open>Submitting the chunks, receiving the replies\<close>

lemma scheduleTask_accept:
  assumes inv: "pool_inv s" and "running s" and "workers s \<noteq> []"
    and "int (length (taskQueue s)) < maxQueueSize s"
  shows "fst (scheduleTask True b s) = Inr (nextTaskId s)"
    and "nextTaskId (snd (scheduleTask True b s)) = nextTaskId s + 1"
    and "taskQueue (snd (scheduleTask True b s)) =
           taskQueue s @ [(nextTaskId s, Some (nextTaskId s))]"
    and "settled (snd (scheduleTask True b s)) = settled s"
    and "running (snd (scheduleTask True b s))"
    and "workers (snd (scheduleTask True b s)) = workers s"
    and "maxQueueSize (snd (scheduleTask True b s)) = maxQueueSize s"
    and "map (\<lambda>x. snd (snd x)) (posted (snd (scheduleTask True b s))) =
           map (\<lambda>x. snd (snd x)) (posted s) @ [b]"
    and "fallbackMode (snd (scheduleTask True b s)) = fallbackMode s"
proof -
  have u: "AList.update (nextTaskId s) (Some (nextTaskId s)) (taskQueue s) =
           taskQueue s @ [(nextTaskId s, Some (nextTaskId s))]"
    using pool_inv_fresh(1)[OF inv] by (rule update_fresh)
  show "fst (scheduleTask True b s) = Inr (nextTaskId s)"
    "nextTaskId (snd (scheduleTask True b s)) = nextTaskId s + 1"
    "taskQueue (snd (scheduleTask True b s)) =
           taskQueue s @ [(nextTaskId s, Some (nextTaskId s))]"
    "settled (snd (scheduleTask True b s)) = settled s"
    "running (snd (scheduleTask True b s))"
    "workers (snd (scheduleTask True b s)) = workers s"
    "maxQueueSize (snd (scheduleTask True b s)) = maxQueueSize s"
    "map (\<lambda>x. snd (snd x)) (posted (snd (scheduleTask True b s))) =
           map (\<lambda>x. snd (snd x)) (posted s) @ [b]"
    "fallbackMode (snd (scheduleTask True b s)) = fallbackMode s"
    using assms(2-4) by (simp_all add: scheduleTask_def Let_def u)
qed

lemma scheduleAll_accept:
  assumes "pool_inv s" and "running s" and "workers s \<noteq> []"
    and "int (length (taskQueue s) + length bs) \<le> maxQueueSize s"
    and "\<forall>i. postOk i"
  shows "fst (scheduleAll postOk bs s) = map Inr [nextTaskId s..<nextTaskId s + length bs] \<and>
         pool_inv (snd (scheduleAll postOk bs s)) \<and>
         nextTaskId (snd (scheduleAll postOk bs s)) = nextTaskId s + length bs \<and>
         taskQueue (snd (scheduleAll postOk bs s)) =
           taskQueue s @ map (\<lambda>i. (i, Some i)) [nextTaskId s..<nextTaskId s + length bs] \<and>
         settled (snd (scheduleAll postOk bs s)) = settled s \<and>
         map (\<lambda>x. snd (snd x)) (posted (snd (scheduleAll postOk bs s))) =
           map (\<lambda>x. snd (snd x)) (posted s) @ bs"
  using assms
proof (induction bs arbitrary: s)
  case Nil
  then show ?case by simp
next
  case (Cons b bs)
  let ?s1 = "snd (scheduleTask True b s)"
  have cap: "int (length (taskQueue s)) < maxQueueSize s" using Cons.prems(4) by simp
  note a = scheduleTask_accept[OF Cons.prems(1,2,3) cap, of b]
  have i1: "pool_inv ?s1" using Cons.prems(1) by (rule scheduleTask_inv)
  have w1: "workers ?s1 \<noteq> []" using a(6) Cons.prems(3) by simp
  have c1: "int (length (taskQueue ?s1) + length bs) \<le> maxQueueSize ?s1"
    using Cons.prems(4) by (simp add: a(3) a(7))
  note ih = Cons.IH[OF i1 a(5) w1 c1 Cons.prems(5)]
  have sa: "scheduleAll postOk (b # bs) s =
            (fst (scheduleTask True b s) # fst (scheduleAll postOk bs ?s1),
             snd (scheduleAll postOk bs ?s1))"
    using Cons.prems(5) by (simp add: split_beta Let_def)
  have r: "[nextTaskId s..<nextTaskId s + length (b # bs)] =
           nextTaskId s # [nextTaskId ?s1..<nextTaskId ?s1 + length bs]"
  proof -
    have "nextTaskId s < nextTaskId s + length (b # bs)" by simp
    from upt_conv_Cons[OF this]
    have "[nextTaskId s..<nextTaskId s + length (b # bs)] =
          nextTaskId s # [Suc (nextTaskId s)..<nextTaskId s + length (b # bs)]" .
    then show ?thesis by (simp add: a(2))
  qed
  show ?case
    unfolding sa r using ih by (simp add: a)
qed


lemma handle_result:
  assumes inv: "pool_inv s" and i: "i \<in> fst ` set (taskQueue s)"
  shows "settled (handleWorkerMessage (resultMessage i v) s) =
           settled s @ [\<lparr>task_id = i, settled_with = Resolved v, still_registered = False,
                         timer_live = False\<rparr>]"
    and "fst ` set (taskQueue (handleWorkerMessage (resultMessage i v) s)) =
           fst ` set (taskQueue s) - {i}"
proof -
  from i obtain t0 where "(i, t0) \<in> set (taskQueue s)" by auto
  then obtain t where mo: "map_of (taskQueue s) i = Some t"
    using weak_map_of_SomeI by fastforce
  note e = pool_inv_entry[OF inv mo]
  have h: "handleWorkerMessage (resultMessage i v) s =
           invoke i (Resolved v) (queue_delete i (clearTimeout i s))"
    using mo e(1)
    by (simp add: handleWorkerMessage_def resultMessage_def queue_get_def Let_def
        truthy_error_def clearTimeoutOf_def)
  show "settled (handleWorkerMessage (resultMessage i v) s) =
           settled s @ [\<lparr>task_id = i, settled_with = Resolved v, still_registered = False,
                         timer_live = False\<rparr>]"
    unfolding h by (simp add: prim_defs keys_delete)
  show "fst ` set (taskQueue (handleWorkerMessage (resultMessage i v) s)) =
           fst ` set (taskQueue s) - {i}"
    unfolding h by (simp add: prim_defs keys_delete)
qed

lemma handle_results:
  assumes "pool_inv s" and "distinct ids" and "set ids \<subseteq> fst ` set (taskQueue s)"
  shows "settled (fold handleWorkerMessage (map (\<lambda>i. resultMessage i (val i)) ids) s) =
           settled s @ map (\<lambda>i. \<lparr>task_id = i, settled_with = Resolved (val i),
                                 still_registered = False, timer_live = False\<rparr>) ids"
  using assms
proof (induction ids arbitrary: s)
  case Nil
  then show ?case by simp
next
  case (Cons i ids)
  let ?s1 = "handleWorkerMessage (resultMessage i (val i)) s"
  have k: "i \<in> fst ` set (taskQueue s)" using Cons.prems(3) by simp
  note h = handle_result[OF Cons.prems(1) k, of "val i"]
  have i1: "pool_inv ?s1" using Cons.prems(1) by (rule handleWorkerMessage_inv)
  have d1: "distinct ids" using Cons.prems(2) by simp
  have s1: "set ids \<subseteq> fst ` set (taskQueue ?s1)"
    unfolding h(2) using Cons.prems(2,3) by auto
  show ?case
    using Cons.IH[OF i1 d1 s1] by (simp add: h(1))
qed

lemma first_refused_accepted [simp]:
  "first_refused (map Inr ids) = None"
  by (induction ids) simp_all

lemma pending_ids_accepted [simp]:
  "pending_ids (map Inr ids) = ids"
  by (induction ids) simp_all

lemma first_failure_none:
  assumes "\<forall>e \<in> set evs. task_id e \<in> set ids \<longrightarrow> (\<exists>v. settled_with e = Resolved v)"
  shows "first_failure ids evs = None"
  using assms by (induction evs) (auto split: outcome.splits)

lemma resolved_value_skip:
  assumes "\<forall>e \<in> set old. task_id e \<noteq> i"
  shows "resolved_value i (old @ new) = resolved_value i new"
  using assms by (induction old) simp_all

lemma resolved_value_found:
  assumes "i \<in> set order"
  shows "resolved_value i
           (map (\<lambda>j. \<lparr>task_id = j, settled_with = Resolved (val j),
                        still_registered = False, timer_live = False\<rparr>) order) = Some (val i)"
  using assms by (induction order) auto

lemma resolved_values_all:
  assumes "\<forall>e \<in> set old. task_id e \<notin> set ids" and "set ids \<subseteq> set order"
  shows "resolved_values ids
           (old @ map (\<lambda>j. \<lparr>task_id = j, settled_with = Resolved (val j),
                        still_registered = False, timer_live = False\<rparr>) order) =
         Some (map val ids)"
  using assms
proof (induction ids)
  case Nil
  show ?case by simp
next
  case (Cons i ids)
  have a: "\<forall>e \<in> set old. task_id e \<noteq> i" using Cons.prems(1) by auto
  have b: "i \<in> set order" using Cons.prems(2) by simp
  have c: "\<forall>e \<in> set old. task_id e \<notin> set ids" using Cons.prems(1) by auto
  have d: "set ids \<subseteq> set order" using Cons.prems(2) by simp
  show ?case
    using Cons.IH[OF c d]
    by (simp add: resolved_value_skip[OF a] resolved_value_found[OF b])
qed

lemma promiseAll_resolved:
  assumes "\<forall>e \<in> set old. task_id e \<notin> set ids" and "set ids \<subseteq> set order"
  shows "promiseAll (map Inr ids)
           (old @ map (\<lambda>j. \<lparr>task_id = j, settled_with = Resolved (val j),
                        still_registered = False, timer_live = False\<rparr>) order) =
         Some (Inr (map val ids))"
proof -
  have "first_failure ids
           (old @ map (\<lambda>j. \<lparr>task_id = j, settled_with = Resolved (val j),
                        still_registered = False, timer_live = False\<rparr>) order) = None"
    by (rule first_failure_none) (use assms(1) in auto)
  then show ?thesis
    by (simp add: promiseAll_def resolved_values_all[OF assms])
qed


subsection \<open>The chunked fallback equals the sequential computation\<close>

lemma batchSizeFor_ceiling:
  assumes "0 < n" "0 < w"
  shows "batchSizeFor n w = nat \<lceil>real n / real w\<rceil>" and "0 < batchSizeFor n w"
proof -
  have w: "w \<noteq> 0" using assms(2) by simp
  have "0 < real n / real w" using assms by simp
  then have "0 < \<lceil>real n / real w\<rceil>" by simp
  then have "0 < nat \<lceil>real n / real w\<rceil>" by simp
  then have "max 1 (nat \<lceil>real n / real w\<rceil>) = nat \<lceil>real n / real w\<rceil>"
    by (intro max_absorb2) linarith
  then show "batchSizeFor n w = nat \<lceil>real n / real w\<rceil>"
    unfolding batchSizeFor_def using w by simp
  show "0 < batchSizeFor n w" by (simp add: batchSizeFor_def less_max_iff_disj)
qed

lemma generateBezierPaths_fallback:
  assumes "running s" and "fallbackMode s \<or> native = None"
    and "length ends = length starts" and "starts \<noteq> []"
  shows "generateBezierPaths native draw postOk starts ends options s =
         (AwaitAll (fst (scheduleAll postOk
             (makeBatches starts ends options
                (batchSizeFor (length starts) (length (workers s))) 0) s)),
          snd (scheduleAll postOk
             (makeBatches starts ends options
                (batchSizeFor (length starts) (length (workers s))) 0) s))"
  using assms
  by (auto simp: generateBezierPaths_def bezierFallback_def Let_def split_beta)

text \<open>
  The dispatcher by itself. On a running pool that the native batch primitive is not available to, with
  \<open>W \<ge> 1\<close> live workers, equally long non-empty inputs of \<open>N\<close> pairs, room in the queue
  for the chunks and messages that can be posted: \<^verbatim>\<open>generateBezierPaths\<close> submits one task
  per chunk, the chunks being contiguous slices of the inputs in their order, each of
  size \<open>\<lceil>N / W\<rceil>\<close> but the last (which is not empty and not larger). When every chunk
  task is answered with the value of \<^verbatim>\<open>processBatch\<close> on its chunk, the answers arriving in
  any order, the promise of \<^verbatim>\<open>generateBezierPaths\<close> resolves with the concatenation of
  the chunk results in chunk order: a list of \<open>N\<close> paths whose \<open>i\<close>-th element is
  \<^verbatim>\<open>generateBezierPath(startPoints[i], endPoints[i], options)\<close> (with the random draw made
  for item \<open>i\<close>, which is read only without a seed). With an explicit seed the result is
  the per-item result of the seeded curve, whatever the draws.
\<close>

theorem chunked_generation:
  fixes s :: "(Batch, Point list list) pool"
    and starts ends :: "Point list" and options :: BezierOptions
    and native :: "native_batch option" and draw :: nat and postOk :: "nat \<Rightarrow> bool"
  defines "b \<equiv> batchSizeFor (length starts) (length (workers s))"
  defines "batches \<equiv> makeBatches starts ends options b 0"
  defines "call \<equiv> generateBezierPaths native draw postOk starts ends options s"
  assumes reach: "s = run acts (constructor hw cppLoads poolOptions)"
    and running: "running s"
    and nonative: "fallbackMode s \<or> native = None"
    and live: "workers s \<noteq> []"
    and len: "length ends = length starts"
    and nonempty: "starts \<noteq> []"
    and room: "int (length (taskQueue s) + length batches) \<le> maxQueueSize s"
    and post: "\<forall>i. postOk i"
    and order: "distinct order" "set order = {0..<length batches}"
    and replies: "s' = fold handleWorkerMessage
        (map (\<lambda>k. resultMessage (nextTaskId s + k)
                    (processBatch curve (\<lambda>j. draws (k * b + j)) (batches ! k))) order)
        (snd call)"
  shows "fst call = AwaitAll (map Inr [nextTaskId s..<nextTaskId s + length batches]) \<and>
         map (\<lambda>x. snd (snd x)) (posted (snd call)) = map (\<lambda>x. snd (snd x)) (posted s) @ batches \<and>
         concat (map startPoints batches) = starts \<and>
         concat (map endPoints batches) = ends \<and>
         (\<forall>k. Suc k < length batches \<longrightarrow>
            length (startPoints (batches ! k)) =
              nat \<lceil>real (length starts) / real (length (workers s))\<rceil>) \<and>
         (\<forall>k < length batches.
            0 < length (startPoints (batches ! k)) \<and>
            length (startPoints (batches ! k)) \<le>
              nat \<lceil>real (length starts) / real (length (workers s))\<rceil> \<and>
            length (endPoints (batches ! k)) = length (startPoints (batches ! k))) \<and>
         bezierResult (fst call) (settled s') =
           Some (Inr (sequentialPaths curve draws starts ends options)) \<and>
         length (sequentialPaths curve draws starts ends options) = length starts \<and>
         (\<forall>i < length starts.
            sequentialPaths curve draws starts ends options ! i =
              generateBezierPath curve (draws i) (starts ! i) (ends ! i) options) \<and>
         (\<forall>sd. seed options = Some sd \<longrightarrow>
            sequentialPaths curve draws starts ends options =
              map (\<lambda>i. curve sd (starts ! i) (ends ! i) options) [0..<length starts])"
proof -
  let ?first = "nextTaskId s"
  let ?n = "(length starts + b - 1) div b"
  have N: "0 < length starts" using nonempty by simp
  have W: "0 < length (workers s)" using live by simp
  have b: "b = nat \<lceil>real (length starts) / real (length (workers s))\<rceil>" "0 < b"
    unfolding b_def using batchSizeFor_ceiling[OF N W] by simp_all
  have bs: "batches = map (chunkAt starts ends options b) [0..<?n]"
    unfolding batches_def by (rule makeBatches_chunks[OF b(2)])
  have n: "length batches = ?n" by (simp add: bs)
  have nth: "batches ! k = chunkAt starts ends options b k" if "k < ?n" for k
    using that by (simp add: bs)
  have inv: "pool_inv s" unfolding reach by (rule reachable_inv)
  have call: "call = (AwaitAll (fst (scheduleAll postOk batches s)),
                      snd (scheduleAll postOk batches s))"
    unfolding call_def batches_def b_def
    by (rule generateBezierPaths_fallback[OF running nonative len nonempty])
  note sa = scheduleAll_accept[OF inv running live room post]
  let ?s1 = "snd (scheduleAll postOk batches s)"
  let ?ids = "[?first..<?first + length batches]"
  have c1: "fst call = AwaitAll (map Inr ?ids)" using sa by (simp add: call)
  have c2: "map (\<lambda>x. snd (snd x)) (posted (snd call)) =
            map (\<lambda>x. snd (snd x)) (posted s) @ batches"
    using sa by (simp add: call)
  have c3: "concat (map startPoints batches) = starts"
    using chunks_concat[OF b(2), of starts] by (simp add: bs comp_def chunkAt_def)
  have c4: "concat (map endPoints batches) = ends"
    using chunks_concat[OF b(2), of ends] by (simp add: bs comp_def chunkAt_def len)
  have c5: "length (startPoints (batches ! k)) = b" if "Suc k < length batches" for k
  proof -
    have "k < ?n" using that n by simp
    then show ?thesis
      using chunk_full[OF b(2), of k starts] that n by (simp add: nth chunkAt_def)
  qed
  have c6: "0 < length (startPoints (batches ! k)) \<and>
            length (startPoints (batches ! k)) \<le> b \<and>
            length (endPoints (batches ! k)) = length (startPoints (batches ! k))"
    if "k < length batches" for k
  proof -
    have k: "k < ?n" using that n by simp
    show ?thesis
      using chunk_nonempty[OF b(2), of k starts] k
      by (simp add: nth chunkAt_def slice_length len)
  qed
  define val where "val i = processBatch curve (\<lambda>j. draws ((i - ?first) * b + j))
                               (batches ! (i - ?first))" for i
  let ?arrived = "map (\<lambda>k. ?first + k) order"
  have msgs: "map (\<lambda>k. resultMessage (?first + k)
                    (processBatch curve (\<lambda>j. draws (k * b + j)) (batches ! k))) order =
              map (\<lambda>i. resultMessage i (val i)) ?arrived"
    by (simp add: val_def comp_def)
  have inv1: "pool_inv ?s1" using sa by simp
  have d: "distinct ?arrived" using order(1) by (simp add: distinct_map inj_on_def)
  have sets: "set ?arrived = set ?ids"
  proof -
    have "set ?arrived = (\<lambda>k. ?first + k) ` {0..<length batches}" using order(2) by simp
    also have "\<dots> = {?first..<?first + length batches}"
      using image_add_atLeastLessThan[of ?first 0 "length batches"]
      by (simp add: add.commute)
    finally show ?thesis by simp
  qed
  have keys: "set ?arrived \<subseteq> fst ` set (taskQueue ?s1)"
  proof -
    have "taskQueue ?s1 = taskQueue s @ map (\<lambda>i. (i, Some i)) ?ids" using sa by simp
    then have "set ?ids \<subseteq> fst ` set (taskQueue ?s1)" by force
    then show ?thesis using sets by simp
  qed
  have st: "settled s' = settled s @
              map (\<lambda>i. \<lparr>task_id = i, settled_with = Resolved (val i),
                          still_registered = False, timer_live = False\<rparr>) ?arrived"
  proof -
    have "settled s' = settled ?s1 @
              map (\<lambda>i. \<lparr>task_id = i, settled_with = Resolved (val i),
                          still_registered = False, timer_live = False\<rparr>) ?arrived"
      unfolding replies msgs call snd_conv by (rule handle_results[OF inv1 d keys])
    then show ?thesis using sa by simp
  qed
  have old: "\<forall>e \<in> set (settled s). task_id e \<notin> set ?ids"
    using inv unfolding pool_inv_def by auto
  have sub: "set ?ids \<subseteq> set ?arrived" using sets by simp
  have pa: "promiseAll (map Inr ?ids) (settled s') = Some (Inr (map val ?ids))"
    unfolding st by (rule promiseAll_resolved[OF old sub])
  have vals: "map val ?ids =
              map (\<lambda>k. processBatch curve (\<lambda>j. draws (k * b + j))
                         (chunkAt starts ends options b k)) [0..<?n]"
  proof -
    have "?ids = map (\<lambda>k. k + ?first) [0..<length batches]"
      by (simp add: map_add_upt add.commute)
    then have "map val ?ids = map (\<lambda>k. val (k + ?first)) [0..<length batches]"
      by (simp add: comp_def)
    also have "\<dots> = map (\<lambda>k. processBatch curve (\<lambda>j. draws (k * b + j))
                         (chunkAt starts ends options b k)) [0..<?n]"
      unfolding n by (rule map_cong) (simp_all add: val_def nth)
    finally show ?thesis .
  qed
  have c7: "bezierResult (fst call) (settled s') =
           Some (Inr (sequentialPaths curve draws starts ends options))"
  proof -
    have ce: "concat (map val ?ids) = sequentialPaths curve draws starts ends options"
      unfolding vals by (rule chunked_equals_sequential[OF b(2) len])
    show ?thesis
      unfolding c1 by (simp add: bezierResult_def pa ce)
  qed
  have c8: "length (sequentialPaths curve draws starts ends options) = length starts"
    by (simp add: sequentialPaths_def)
  have c9: "sequentialPaths curve draws starts ends options ! i =
              generateBezierPath curve (draws i) (starts ! i) (ends ! i) options"
    if "i < length starts" for i
    using that by (simp add: sequentialPaths_def)
  have c10: "sequentialPaths curve draws starts ends options =
              map (\<lambda>i. curve sd (starts ! i) (ends ! i) options) [0..<length starts]"
    if "seed options = Some sd" for sd
    using that by (rule sequentialPaths_seeded)
  show ?thesis
    unfolding b(1)[symmetric]
  proof (intro conjI)
    show "fst call = AwaitAll (map Inr ?ids)" by (rule c1)
    show "map (\<lambda>x. snd (snd x)) (posted (snd call)) =
            map (\<lambda>x. snd (snd x)) (posted s) @ batches" by (rule c2)
    show "concat (map startPoints batches) = starts" by (rule c3)
    show "concat (map endPoints batches) = ends" by (rule c4)
    show "\<forall>k. Suc k < length batches \<longrightarrow> length (startPoints (batches ! k)) = b"
      using c5 by blast
    show "\<forall>k < length batches.
            0 < length (startPoints (batches ! k)) \<and>
            length (startPoints (batches ! k)) \<le> b \<and>
            length (endPoints (batches ! k)) = length (startPoints (batches ! k))"
      using c6 by blast
    show "bezierResult (fst call) (settled s') =
           Some (Inr (sequentialPaths curve draws starts ends options))" by (rule c7)
    show "length (sequentialPaths curve draws starts ends options) = length starts"
      by (rule c8)
    show "\<forall>i < length starts.
            sequentialPaths curve draws starts ends options ! i =
              generateBezierPath curve (draws i) (starts ! i) (ends ! i) options"
      using c9 by blast
    show "\<forall>sd. seed options = Some sd \<longrightarrow>
            sequentialPaths curve draws starts ends options =
              map (\<lambda>i. curve sd (starts ! i) (ends ! i) options) [0..<length starts]"
      using c10 by blast
  qed
qed


lemma example_batches:
  "makeBatches example_starts example_ends example_bezier_options 2 0 =
     [\<lparr>startPoints = [pt 0 0, pt 1 1], endPoints = [pt 5 5, pt 6 6],
       batchOptions = example_bezier_options\<rparr>,
      \<lparr>startPoints = [pt 2 2], endPoints = [pt 7 7],
       batchOptions = example_bezier_options\<rparr>]"
proof -
  have n: "(length example_starts + 2 - 1) div 2 = 2" by (simp add: example_starts_def)
  have u: "[0..<2] = [0, 1]" by (simp add: upt_rec)
  have "makeBatches example_starts example_ends example_bezier_options 2 0 =
        map (chunkAt example_starts example_ends example_bezier_options 2) [0..<2]"
    using makeBatches_chunks[of 2 example_starts example_ends example_bezier_options]
    unfolding n by simp
  then show ?thesis
    unfolding u
    by (simp add: chunkAt_def slice_def example_starts_def example_ends_def)
qed

lemma example_batch_size:
  "batchSizeFor (length example_starts) (length (workers example_bezier_pool)) = 2"
proof -
  have l: "length example_starts = 3" "length (workers example_bezier_pool) = 2"
    by (simp_all add: example_starts_def example_bezier_pool_eval)
  show ?thesis unfolding l by (simp add: batchSizeFor_div)
qed

lemma example_seed: "seed example_bezier_options = Some 12345"
  by (simp add: example_bezier_options_def)

text \<open>The dispatcher at three pairs and two workers, the chunk tasks answered in the
  order 1, 0 with the values of \<^verbatim>\<open>processBatch\<close>.\<close>

theorem chunked_generation_example:
  "bezierResult
     (fst (generateBezierPaths (Some failing_native) 0 always example_starts example_ends
             example_bezier_options example_bezier_pool))
     (settled (fold handleWorkerMessage
        [resultMessage 1 [example_curve 12345 (pt 2 2) (pt 7 7) example_bezier_options],
         resultMessage 0 [example_curve 12345 (pt 0 0) (pt 5 5) example_bezier_options,
                          example_curve 12345 (pt 1 1) (pt 6 6) example_bezier_options]]
        (snd (generateBezierPaths (Some failing_native) 0 always example_starts example_ends
                example_bezier_options example_bezier_pool)))) =
   Some (Inr [example_curve 12345 (pt 0 0) (pt 5 5) example_bezier_options,
              example_curve 12345 (pt 1 1) (pt 6 6) example_bezier_options,
              example_curve 12345 (pt 2 2) (pt 7 7) example_bezier_options])"
proof -
  let ?call = "generateBezierPaths (Some failing_native) 0 always example_starts example_ends
                 example_bezier_options example_bezier_pool"
  let ?msgs = "[resultMessage 1 [example_curve 12345 (pt 2 2) (pt 7 7) example_bezier_options],
         resultMessage 0 [example_curve 12345 (pt 0 0) (pt 5 5) example_bezier_options,
                          example_curve 12345 (pt 1 1) (pt 6 6) example_bezier_options]]"
  let ?s' = "fold handleWorkerMessage ?msgs (snd ?call)"
  have reach: "example_bezier_pool =
      run [StartResume always] (constructor 4 False (example_options None None))"
    by (simp add: example_bezier_pool_def run_def)
  have running: "running example_bezier_pool"
    and nonative: "fallbackMode example_bezier_pool \<or> Some failing_native = None"
    and live: "workers example_bezier_pool \<noteq> []"
    by (simp_all add: example_bezier_pool_eval)
  have len: "length example_ends = length example_starts"
    and nonempty: "example_starts \<noteq> []"
    by (simp_all add: example_starts_def example_ends_def)
  have room: "int (length (taskQueue example_bezier_pool) +
      length (makeBatches example_starts example_ends example_bezier_options
        (batchSizeFor (length example_starts) (length (workers example_bezier_pool))) 0))
      \<le> maxQueueSize example_bezier_pool"
    unfolding example_batch_size example_batches by (simp add: example_bezier_pool_eval)
  have post: "\<forall>i. always i" by (simp add: always_def)
  have order: "distinct [1, 0 :: nat]"
    "set [1, 0 :: nat] = {0..<length (makeBatches example_starts example_ends
        example_bezier_options
        (batchSizeFor (length example_starts) (length (workers example_bezier_pool))) 0)}"
    unfolding example_batch_size example_batches by auto
  have replies: "?s' = fold handleWorkerMessage
      (map (\<lambda>k. resultMessage (nextTaskId example_bezier_pool + k)
              (processBatch example_curve
                 (\<lambda>j. no_draws (k * batchSizeFor (length example_starts)
                                      (length (workers example_bezier_pool)) + j))
                 (makeBatches example_starts example_ends example_bezier_options
                    (batchSizeFor (length example_starts)
                       (length (workers example_bezier_pool))) 0 ! k)))
         [1, 0])
      (snd ?call)"
    unfolding example_batch_size example_batches
    by (simp add: processBatch_def generateBezierPath_def example_seed
        example_bezier_pool_eval upt_rec)
  note inst = chunked_generation[OF reach running nonative live len nonempty room post
      order replies]
  from inst have r: "bezierResult (fst ?call) (settled ?s') =
      Some (Inr (sequentialPaths example_curve no_draws example_starts example_ends
                   example_bezier_options))"
    by blast
  have "sequentialPaths example_curve no_draws example_starts example_ends
          example_bezier_options =
        [example_curve 12345 (pt 0 0) (pt 5 5) example_bezier_options,
         example_curve 12345 (pt 1 1) (pt 6 6) example_bezier_options,
         example_curve 12345 (pt 2 2) (pt 7 7) example_bezier_options]"
    by (simp add: sequentialPaths_def generateBezierPath_def example_seed
        example_starts_def example_ends_def upt_rec)
  with r show ?thesis by simp
qed

lemma example_call_eval:
  "generateBezierPaths None 0 always example_starts example_ends
     example_bezier_options example_bezier_pool =
   (AwaitAll [Inr 0, Inr 1],
    example_bezier_pool
      \<lparr>taskQueue := [(0, Some 0), (1, Some 1)], nextTaskId := 2, timers := {0, 1},
       posted := [(0, 0, \<lparr>startPoints = [pt 0 0, pt 1 1], endPoints = [pt 5 5, pt 6 6],
                            batchOptions = example_bezier_options\<rparr>),
                  (1, 1, \<lparr>startPoints = [pt 2 2], endPoints = [pt 7 7],
                            batchOptions = example_bezier_options\<rparr>)]\<rparr>)"
proof -
  have running: "running example_bezier_pool"
    and nonative: "fallbackMode example_bezier_pool \<or> (None :: native_batch option) = None"
    by (simp_all add: example_bezier_pool_eval)
  have len: "length example_ends = length example_starts"
    and nonempty: "example_starts \<noteq> []"
    by (simp_all add: example_starts_def example_ends_def)
  show ?thesis
    unfolding generateBezierPaths_fallback[OF running nonative len nonempty]
      example_batch_size example_batches
    by (simp add: example_bezier_pool_eval scheduleTask_def Let_def always_def insert_commute)
qed

text \<open>
  C2. Without the native batch primitive and with \<open>W \<ge> 1\<close> live workers,
  \<^verbatim>\<open>generateBezierPaths\<close> over \<open>N\<close> pairs cuts the inputs into contiguous chunks and submits
  one task per chunk (\<open>chunked_generation\<close> above); the result is to be the list of the
  \<open>N\<close> paths of the sequential per-item computation. The chunk tasks are run by
  worker.js, which receives the text of \<^verbatim>\<open>processBatch\<close> (\<^verbatim>\<open>task.toString()\<close> in
  \<^verbatim>\<open>scheduleTask\<close>) and rebuilds a function from it with \<^verbatim>\<open>new Function\<close> in
  \<^verbatim>\<open>evaluateFunction\<close>. \<^verbatim>\<open>processBatch\<close> is an \<^verbatim>\<open>async\<close> arrow function whose body calls
  \<^verbatim>\<open>this.generateBezierPath\<close>: the arrow pattern of \<^verbatim>\<open>evaluateFunction\<close> takes
  \<^verbatim>\<open>async (batch)\<close> for the parameter list, which \<^verbatim>\<open>new Function\<close> refuses, and a function
  rebuilt from the text has neither the pool as \<^verbatim>\<open>this\<close> nor the helpers of the compiled
  module in scope. The worker therefore catches an error and answers each chunk task
  with the error object \<^verbatim>\<open>serializeError\<close> makes of it, of some name \<open>n\<close> and message
  \<open>m\<close>.

  At three pairs, two workers and seed 12345: the call submits the chunk tasks 0 and
  1, and when the workers have answered them in this way the promise of
  \<^verbatim>\<open>generateBezierPaths\<close> is rejected with the worker's error. It does not resolve with
  three paths.
\<close>

theorem chunk_failure_rejects_batch:
  "fst (generateBezierPaths None 0 always example_starts example_ends
          example_bezier_options example_bezier_pool) = AwaitAll [Inr 0, Inr 1] \<and>
   bezierResult
     (fst (generateBezierPaths None 0 always example_starts example_ends
             example_bezier_options example_bezier_pool))
     (settled (fold handleWorkerMessage
        [taskFailed 0 (ErrObject n m), taskFailed 1 (ErrObject n m)]
        (snd (generateBezierPaths None 0 always example_starts example_ends
                example_bezier_options example_bezier_pool)))) =
   Some (Inl (FromWorker (ErrObject n m)))"
  unfolding example_call_eval
  by (simp add: example_bezier_pool_eval handleWorkerMessage_def taskFailed_def
      truthy_error_def queue_get_def queue_delete_def clearTimeoutOf_def
      clearTimeout_def invoke_def Let_def bezierResult_def promiseAll_def warn_def)

section \<open>Properties of the backend selection\<close>

lemma getBestAvailableType_order:
  "getBestAvailableType registered =
     (if CPP \<in> registered then CPP
      else if FORTRAN \<in> registered then FORTRAN
      else if PYTHON \<in> registered then PYTHON
      else TYPESCRIPT)"
  by (simp add: getBestAvailableType_def)

lemma selectBest_unfold:
  "selectBest r reg =
    (let b0 = TYPESCRIPT;
         b1 = (if r CPP > r b0 \<and> CPP \<in> reg then CPP else b0);
         b2 = (if r PYTHON > r b1 \<and> PYTHON \<in> reg then PYTHON else b1);
         b3 = (if r FORTRAN > r b2 \<and> FORTRAN \<in> reg then FORTRAN else b2)
     in b3)"
  by (simp add: selectBest_def Let_def split_beta)

lemma selectBest_registered:
  "TYPESCRIPT \<in> reg \<Longrightarrow> selectBest r reg \<in> reg"
  by (simp add: selectBest_unfold Let_def)

lemma selectBest_max:
  assumes "TYPESCRIPT \<in> reg" "t \<in> reg"
  shows "r t \<le> r (selectBest r reg)"
  using assms by (cases t) (auto simp: selectBest_unfold Let_def not_less)

lemma selectBest_tie:
  assumes "TYPESCRIPT \<in> reg" "t \<in> reg" "r t = r (selectBest r reg)"
  shows "scan_position (selectBest r reg) \<le> scan_position t"
  using assms by (cases t) (auto simp: selectBest_unfold Let_def split: if_splits)

lemma available_only_typescript:
  "TYPESCRIPT \<in> reg \<Longrightarrow>
   (filter (\<lambda>t. t \<in> reg) [TYPESCRIPT, CPP, PYTHON, FORTRAN] = [TYPESCRIPT]) = (reg = {TYPESCRIPT})"
proof
  assume a: "TYPESCRIPT \<in> reg"
    and b: "filter (\<lambda>t. t \<in> reg) [TYPESCRIPT, CPP, PYTHON, FORTRAN] = [TYPESCRIPT]"
  have "t \<in> reg \<Longrightarrow> t = TYPESCRIPT" for t
    using b by (cases t) (auto split: if_splits)
  then show "reg = {TYPESCRIPT}" using a by auto
next
  assume "reg = {TYPESCRIPT}"
  then show "filter (\<lambda>t. t \<in> reg) [TYPESCRIPT, CPP, PYTHON, FORTRAN] = [TYPESCRIPT]"
    by simp
qed

text \<open>With the reference and the C++ backends registered and their scores equal, the
  benchmark selects the reference backend, although C++ stands before it in the
  preference order.\<close>

theorem backend_selection_order_counterexample:
  "CPP \<in> instances example_factory \<and> TYPESCRIPT \<in> instances example_factory \<and>
   equal_scores CPP = equal_scores TYPESCRIPT \<and>
   getBestAvailableType (instances example_factory) = CPP \<and>
   fst (benchmarkAndSelectBest equal_scores example_factory) = TYPESCRIPT \<and>
   activeType (snd (benchmarkAndSelectBest equal_scores example_factory)) = TYPESCRIPT"
  by (simp add: example_factory_def getBestAvailableType_order benchmarkAndSelectBest_def
      Let_def selectBest_unfold equal_scores_def)

text \<open>
  C7 (amended). \<^verbatim>\<open>getBestAvailableType\<close> returns the first registered kind in the order
  C++, Fortran, Python, TypeScript. \<^verbatim>\<open>benchmarkAndSelectBest\<close> (the reference backend
  being registered, as it always is), whatever the scores its benchmark has computed,
  returns a registered kind whose score no registered kind exceeds, and makes it the
  active kind unless the reference backend is the only one; among registered kinds of
  that same best score it returns the first in the order of its own scan, TypeScript,
  C++, Python, Fortran: a later kind replaces the candidate only with a strictly greater
  score.
\<close>

theorem backend_selection_order:
  "getBestAvailableType registered =
     (if CPP \<in> registered then CPP
      else if FORTRAN \<in> registered then FORTRAN
      else if PYTHON \<in> registered then PYTHON
      else TYPESCRIPT) \<and>
   (TYPESCRIPT \<in> instances f \<longrightarrow>
      fst (benchmarkAndSelectBest results f) \<in> instances f \<and>
      (instances f \<noteq> {TYPESCRIPT} \<longrightarrow>
         activeType (snd (benchmarkAndSelectBest results f)) =
           fst (benchmarkAndSelectBest results f)) \<and>
      (\<forall>t \<in> instances f.
         results t \<le> results (fst (benchmarkAndSelectBest results f)) \<and>
         (results t = results (fst (benchmarkAndSelectBest results f)) \<longrightarrow>
          scan_position (fst (benchmarkAndSelectBest results f)) \<le> scan_position t)))"
proof (intro conjI impI)
  show "getBestAvailableType registered =
     (if CPP \<in> registered then CPP
      else if FORTRAN \<in> registered then FORTRAN
      else if PYTHON \<in> registered then PYTHON
      else TYPESCRIPT)"
    by (rule getBestAvailableType_order)
next
  assume ts: "TYPESCRIPT \<in> instances f"
  let ?b = "fst (benchmarkAndSelectBest results f)"
  have b: "?b = (if instances f = {TYPESCRIPT} then TYPESCRIPT
                 else selectBest results (instances f))"
    using available_only_typescript[OF ts]
    by (simp add: benchmarkAndSelectBest_def Let_def del: filter.simps)
  show "?b \<in> instances f"
    using ts selectBest_registered[OF ts, of results] by (simp add: b)
  show "\<forall>t \<in> instances f.
          results t \<le> results ?b \<and>
          (results t = results ?b \<longrightarrow> scan_position ?b \<le> scan_position t)"
  proof
    fix t assume t: "t \<in> instances f"
    show "results t \<le> results ?b \<and>
          (results t = results ?b \<longrightarrow> scan_position ?b \<le> scan_position t)"
    proof (cases "instances f = {TYPESCRIPT}")
      case True
      then show ?thesis using t by (simp add: b)
    next
      case False
      then show ?thesis
        using selectBest_max[OF ts t, of results] selectBest_tie[OF ts t, of results]
        by (simp add: b)
    qed
  qed
  assume "instances f \<noteq> {TYPESCRIPT}"
  then show "activeType (snd (benchmarkAndSelectBest results f)) = ?b"
    using available_only_typescript[OF ts]
    by (simp add: benchmarkAndSelectBest_def Let_def del: filter.simps)
qed

theorem backend_selection_order_witness:
  "getBestAvailableType {PYTHON, FORTRAN, TYPESCRIPT} = FORTRAN \<and>
   fst (benchmarkAndSelectBest cpp_ahead example_factory) = CPP \<and>
   activeType (snd (benchmarkAndSelectBest cpp_ahead example_factory)) = CPP \<and>
   cpp_ahead TYPESCRIPT \<le> cpp_ahead (fst (benchmarkAndSelectBest cpp_ahead example_factory))"
proof -
  have ts: "TYPESCRIPT \<in> instances example_factory"
    and ne: "instances example_factory \<noteq> {TYPESCRIPT}"
    by (auto simp: example_factory_def)
  have best: "fst (benchmarkAndSelectBest cpp_ahead example_factory) = CPP"
    by (simp add: example_factory_def benchmarkAndSelectBest_def Let_def selectBest_unfold
        cpp_ahead_def)
  note inst = backend_selection_order[of "{PYTHON, FORTRAN, TYPESCRIPT}" example_factory
      cpp_ahead]
  from inst have g: "getBestAvailableType {PYTHON, FORTRAN, TYPESCRIPT} = FORTRAN" by simp
  from inst ts ne have a:
    "activeType (snd (benchmarkAndSelectBest cpp_ahead example_factory)) =
       fst (benchmarkAndSelectBest cpp_ahead example_factory)"
    by blast
  from inst ts have
    "\<forall>t \<in> instances example_factory.
       cpp_ahead t \<le> cpp_ahead (fst (benchmarkAndSelectBest cpp_ahead example_factory))"
    by blast
  with ts have m:
    "cpp_ahead TYPESCRIPT \<le> cpp_ahead (fst (benchmarkAndSelectBest cpp_ahead example_factory))"
    by blast
  show ?thesis using g a m best by simp
qed

end
